theory Spec2Isabelle
  imports Main "HOL-Library.Word" "HOL-Library.Sublist" "HOL-Library.AList"
begin

unbundle bit_operations_syntax

section \<open>Values\<close>

text \<open>
  A Number is an IEEE-754 double, kept as its 64-bit pattern. Every bit pattern with all
  exponent bits set and a non-zero mantissa is a NaN; the two zeros are the patterns
  \<open>0x0000000000000000\<close> and \<open>0x8000000000000000\<close>; every other value has exactly one
  pattern.
\<close>

type_synonym double = "64 word"

definition isNaN :: "double \<Rightarrow> bool" where
  "isNaN d = (0x7FF0000000000000 < (d AND 0x7FFFFFFFFFFFFFFF))"

definition pos_zero :: double where
  "pos_zero = 0"

definition neg_zero :: double where
  "neg_zero = 0x8000000000000000"

text \<open>The doubles 1, 2 and 3.\<close>

definition double_1 :: double where
  "double_1 = 0x3FF0000000000000"

definition double_2 :: double where
  "double_2 = 0x4000000000000000"

definition double_3 :: double where
  "double_3 = 0x4008000000000000"

text \<open>
  The closed tagged union of guest values. A Symbol and an Object are references (an
  identity); a String is kept as a \<^typ>\<open>string\<close>.
\<close>

datatype val =
    Undefined
  | Null
  | Boolean bool
  | Number double
  | BigInt int
  | String string
  | Symbol nat
  | Object nat

text \<open>\<open>F(x)\<close>: the Number value of a host number.\<close>

definition F :: "double \<Rightarrow> val" where
  "F d = Number d"

subsection \<open>Equality\<close>

text \<open>The IEEE-754 comparison of two doubles: a NaN equals nothing, the two zeros are equal.\<close>

definition number_equal :: "double \<Rightarrow> double \<Rightarrow> bool" where
  "number_equal x y =
     (\<not> isNaN x \<and> \<not> isNaN y \<and>
      (x = y \<or> (x = pos_zero \<or> x = neg_zero) \<and> (y = pos_zero \<or> y = neg_zero)))"

text \<open>
  Modelled from the spec: \<open>SameValue\<close> and \<open>SameValueZero\<close> live in
  \<open>abstract-ops/all.mjs\<close>, which is not part of the source slice. The spec defines
  strict equality as type-tagged, with Numbers compared by the IEEE-754 rules and every
  other type by identity or structural value; SameValue as strict equality except that
  NaN equals NaN and the two zeros differ; SameValueZero as SameValue except that the two
  zeros are equal. As in the source, the result is a guest Boolean.
\<close>

definition SameValue :: "val \<Rightarrow> val \<Rightarrow> val" where
  "SameValue x y =
     (case (x, y) of
        (Number a, Number b) \<Rightarrow> Boolean (isNaN a \<and> isNaN b \<or> \<not> isNaN a \<and> \<not> isNaN b \<and> a = b)
      | _ \<Rightarrow> Boolean (x = y))"

definition SameValueZero :: "val \<Rightarrow> val \<Rightarrow> val" where
  "SameValueZero x y =
     (case (x, y) of
        (Number a, Number b) \<Rightarrow> Boolean (isNaN a \<and> isNaN b \<or> number_equal a b)
      | _ \<Rightarrow> SameValue x y)"

section \<open>Completions and errors\<close>

text \<open>
  \<open>surroundingAgent.Throw(type, template, ...args)\<close> creates a guest error object of the
  constructor \<open>type\<close> whose message is the template of the message catalogue applied to
  the arguments. An argument is a guest value (printed by \<open>inspect\<close>) or a host string
  (printed as it is).
\<close>

datatype msg_arg = V val | H string

text \<open>
  The payload of a throw completion: a guest value that exists already, or the error
  object that \<open>surroundingAgent.Throw\<close> has just created, described by its constructor
  name, the name of its template and the template's arguments.
\<close>

datatype payload =
    Val val
  | NewError (kind: string) (tmpl: string) (args: "msg_arg list")

datatype completion =
    Normal val
  | Throw payload
  | Return val
  | Break "string option"
  | Continue "string option"

definition is_abrupt :: "completion \<Rightarrow> bool" where
  "is_abrupt c = (case c of Normal _ \<Rightarrow> False | _ \<Rightarrow> True)"

definition surroundingAgent_Throw :: "string \<Rightarrow> string \<Rightarrow> msg_arg list \<Rightarrow> completion" where
  "surroundingAgent_Throw type t as = Throw (NewError type t as)"

section \<open>The message catalogue\<close>

text \<open>
  \<open>i(V)\<close> prints a guest value with \<open>inspect\<close> and a host string as it is. \<open>inspect\<close>
  lives in \<open>api.mjs\<close>, which is not part of the source slice: it is a parameter.
\<close>

definition msg_i :: "(val \<Rightarrow> string) \<Rightarrow> msg_arg \<Rightarrow> string" where
  "msg_i inspect a = (case a of V v \<Rightarrow> inspect v | H s \<Rightarrow> s)"

definition Raw :: "string \<Rightarrow> string" where
  "Raw s = s"

definition InternalSlotMissing :: "(val \<Rightarrow> string) \<Rightarrow> msg_arg \<Rightarrow> string \<Rightarrow> string" where
  "InternalSlotMissing inspect o' s = ''Internal slot '' @ s @ '' is missing for '' @ msg_i inspect o'"

definition NotAFunction :: "(val \<Rightarrow> string) \<Rightarrow> msg_arg \<Rightarrow> string" where
  "NotAFunction inspect v = msg_i inspect v @ '' is not a function''"

definition IncompatibleOptions :: "string \<Rightarrow> string" where
  "IncompatibleOptions msg = ''Incompatible options: '' @ msg"

definition NotWellFormed :: "(val \<Rightarrow> string) \<Rightarrow> string \<Rightarrow> msg_arg \<Rightarrow> string" where
  "NotWellFormed inspect t v = msg_i inspect v @ '' is not a well-formed '' @ t"

text \<open>
  The message of the error object that \<open>surroundingAgent.Throw(type, template, ...args)\<close>
  creates: the template of that name applied to the arguments, for the templates above.
\<close>

definition messages :: "(val \<Rightarrow> string) \<Rightarrow> string \<Rightarrow> msg_arg list \<Rightarrow> string option" where
  "messages inspect t as =
     (if t = ''Raw'' then (case as of [H s] \<Rightarrow> Some (Raw s) | _ \<Rightarrow> None)
      else if t = ''InternalSlotMissing'' then
        (case as of [o', H s] \<Rightarrow> Some (InternalSlotMissing inspect o' s) | _ \<Rightarrow> None)
      else if t = ''NotAFunction'' then
        (case as of [v] \<Rightarrow> Some (NotAFunction inspect v) | _ \<Rightarrow> None)
      else if t = ''IncompatibleOptions'' then
        (case as of [H msg] \<Rightarrow> Some (IncompatibleOptions msg) | _ \<Rightarrow> None)
      else if t = ''NotWellFormed'' then
        (case as of [H ty, v] \<Rightarrow> Some (NotWellFormed inspect ty v) | _ \<Rightarrow> None)
      else None)"

subsection \<open>The errors of the Proxy invariants\<close>

text \<open>
  The templates of the catalogue for a violated invariant of a Proxy trap, by their
  names. \<open>ProxyRevoked\<close> is the error of a revoked proxy, not of a violated invariant.
\<close>

datatype proxy_template =
    ProxyDefinePropertyNonConfigurable
  | ProxyDefinePropertyNonConfigurableWritable
  | ProxyDefinePropertyNonExtensible
  | ProxyDefinePropertyIncompatible
  | ProxyDeletePropertyNonConfigurable
  | ProxyDeletePropertyNonExtensible
  | ProxyGetNonConfigurableData
  | ProxyGetNonConfigurableAccessor
  | ProxyGetPrototypeOfInvalid
  | ProxyGetPrototypeOfNonExtensible
  | ProxyGetOwnPropertyDescriptorIncompatible
  | ProxyGetOwnPropertyDescriptorInvalid
  | ProxyGetOwnPropertyDescriptorUndefined
  | ProxyGetOwnPropertyDescriptorNonExtensible
  | ProxyGetOwnPropertyDescriptorNonConfigurable
  | ProxyGetOwnPropertyDescriptorNonConfigurableWritable
  | ProxyHasNonConfigurable
  | ProxyHasNonExtensible
  | ProxyIsExtensibleInconsistent
  | ProxyOwnKeysMissing
  | ProxyOwnKeysNonExtensible
  | ProxyOwnKeysDuplicateEntries
  | ProxyPreventExtensionsExtensible
  | ProxySetPrototypeOfNonExtensible
  | ProxySetFrozenData
  | ProxySetFrozenAccessor

text \<open>
  The message of each template: the text before and after the printed argument, for a
  template that takes one (the property key \<open>p\<close>, or the extensibility \<open>e\<close> of the
  target). A template that takes none leaves the argument aside.
\<close>

primrec proxy_message :: "(val \<Rightarrow> string) \<Rightarrow> proxy_template \<Rightarrow> msg_arg \<Rightarrow> string" where
  "proxy_message inspect ProxyDefinePropertyNonConfigurable p =
     ([CHR 0x27] @ ''defineProperty'' @ [CHR 0x27] @ '' on proxy: trap returned truthy for defining non-configurable property '') @ msg_i inspect p @ ('' which is either non-existent or configurable in the proxy target'')"
| "proxy_message inspect ProxyDefinePropertyNonConfigurableWritable p =
     ([CHR 0x27] @ ''defineProperty'' @ [CHR 0x27] @ '' on proxy: trap returned truthy for defining non-configurable property '') @ msg_i inspect p @ ('' which cannot be non-writable, unless there exists a corresponding non-configurable, non-writable own property of the target object'')"
| "proxy_message inspect ProxyDefinePropertyNonExtensible p =
     ([CHR 0x27] @ ''defineProperty'' @ [CHR 0x27] @ '' on proxy: trap returned truthy for adding property '') @ msg_i inspect p @ ('' to the non-extensible proxy target'')"
| "proxy_message inspect ProxyDefinePropertyIncompatible p =
     ([CHR 0x27] @ ''defineProperty'' @ [CHR 0x27] @ '' on proxy: trap returned truthy for adding property '') @ msg_i inspect p @ ('' that is incompatible with the existing property in the proxy target'')"
| "proxy_message inspect ProxyDeletePropertyNonConfigurable p =
     ([CHR 0x27] @ ''deleteProperty'' @ [CHR 0x27] @ '' on proxy: trap returned truthy for property '') @ msg_i inspect p @ ('' which is non-configurable in the proxy target'')"
| "proxy_message inspect ProxyDeletePropertyNonExtensible p =
     ([CHR 0x27] @ ''deleteProperty'' @ [CHR 0x27] @ '' on proxy: trap returned truthy for property '') @ msg_i inspect p @ ('' but the proxy target is non-extensible'')"
| "proxy_message inspect ProxyGetNonConfigurableData p =
     ([CHR 0x27] @ ''get'' @ [CHR 0x27] @ '' on proxy: property '') @ msg_i inspect p @ ('' is a read-only and non-configurable data property on the proxy target but the proxy did not return its actual value'')"
| "proxy_message inspect ProxyGetNonConfigurableAccessor p =
     ([CHR 0x27] @ ''get'' @ [CHR 0x27] @ '' on proxy: property '') @ msg_i inspect p @ ('' is a non-configurable accessor property on the proxy target and does not have a getter function, but the trap did not return '' @ [CHR 0x27] @ ''undefined'' @ [CHR 0x27])"
| "proxy_message inspect ProxyGetPrototypeOfInvalid p =
     [CHR 0x27] @ ''getPrototypeOf'' @ [CHR 0x27] @ '' on proxy: trap returned neither object nor null''"
| "proxy_message inspect ProxyGetPrototypeOfNonExtensible p =
     [CHR 0x27] @ ''getPrototypeOf'' @ [CHR 0x27] @ '' on proxy: proxy target is non-extensible but the trap did not return its actual prototype''"
| "proxy_message inspect ProxyGetOwnPropertyDescriptorIncompatible p =
     ([CHR 0x27] @ ''getOwnPropertyDescriptor'' @ [CHR 0x27] @ '' on proxy: trap returned descriptor for property '') @ msg_i inspect p @ ('' that is incompatible with the existing property in the proxy target'')"
| "proxy_message inspect ProxyGetOwnPropertyDescriptorInvalid p =
     ([CHR 0x27] @ ''getOwnPropertyDescriptor'' @ [CHR 0x27] @ '' on proxy: trap returned neither object nor undefined for property '') @ msg_i inspect p @ ([])"
| "proxy_message inspect ProxyGetOwnPropertyDescriptorUndefined p =
     ([CHR 0x27] @ ''getOwnPropertyDescriptor'' @ [CHR 0x27] @ '' on proxy: trap returned undefined for property '') @ msg_i inspect p @ ('' which is non-configurable in the proxy target'')"
| "proxy_message inspect ProxyGetOwnPropertyDescriptorNonExtensible p =
     ([CHR 0x27] @ ''getOwnPropertyDescriptor'' @ [CHR 0x27] @ '' on proxy: trap returned undefined for property '') @ msg_i inspect p @ ('' which exists in the non-extensible target'')"
| "proxy_message inspect ProxyGetOwnPropertyDescriptorNonConfigurable p =
     ([CHR 0x27] @ ''getOwnPropertyDescriptor'' @ [CHR 0x27] @ '' on proxy: trap reported non-configurability for property '') @ msg_i inspect p @ ('' which is either non-existent or configurable in the proxy target'')"
| "proxy_message inspect ProxyGetOwnPropertyDescriptorNonConfigurableWritable p =
     ([CHR 0x27] @ ''getOwnPropertyDescriptor'' @ [CHR 0x27] @ '' on proxy: trap reported non-configurability for property '') @ msg_i inspect p @ ('' which is writable or configurable in the proxy target'')"
| "proxy_message inspect ProxyHasNonConfigurable p =
     ([CHR 0x27] @ ''has'' @ [CHR 0x27] @ '' on proxy: trap returned falsy for property '') @ msg_i inspect p @ ('' which exists in the proxy target as non-configurable'')"
| "proxy_message inspect ProxyHasNonExtensible p =
     ([CHR 0x27] @ ''has'' @ [CHR 0x27] @ '' on proxy: trap returned falsy for property '') @ msg_i inspect p @ ('' but the proxy target is not extensible'')"
| "proxy_message inspect ProxyIsExtensibleInconsistent p =
     ([CHR 0x27] @ ''isExtensible'' @ [CHR 0x27] @ '' on proxy: trap result does not reflect extensibility of proxy target (which is '') @ msg_i inspect p @ ('')'')"
| "proxy_message inspect ProxyOwnKeysMissing p =
     ([CHR 0x27] @ ''ownKeys'' @ [CHR 0x27] @ '' on proxy: trap result did not include '') @ msg_i inspect p @ ([])"
| "proxy_message inspect ProxyOwnKeysNonExtensible p =
     [CHR 0x27] @ ''ownKeys'' @ [CHR 0x27] @ '' on proxy: trap result returned extra keys but proxy target is non-extensible''"
| "proxy_message inspect ProxyOwnKeysDuplicateEntries p =
     [CHR 0x27] @ ''ownKeys'' @ [CHR 0x27] @ '' on proxy: trap returned duplicate entries''"
| "proxy_message inspect ProxyPreventExtensionsExtensible p =
     [CHR 0x27] @ ''preventExtensions'' @ [CHR 0x27] @ '' on proxy: trap returned truthy but the proxy target is extensible''"
| "proxy_message inspect ProxySetPrototypeOfNonExtensible p =
     [CHR 0x27] @ ''setPrototypeOf'' @ [CHR 0x27] @ '' on proxy: trap returned truthy for setting a new prototype on the non-extensible proxy target''"
| "proxy_message inspect ProxySetFrozenData p =
     ([CHR 0x27] @ ''set'' @ [CHR 0x27] @ '' on proxy: trap returned truthy for property '') @ msg_i inspect p @ ('' which exists in the proxy target as a non-configurable and non-writable data property with a different value'')"
| "proxy_message inspect ProxySetFrozenAccessor p =
     ([CHR 0x27] @ ''set'' @ [CHR 0x27] @ '' on proxy: trap returned truthy for property '') @ msg_i inspect p @ ('' which exists in the proxy target as a non-configurable and non-writable accessor property without a setter'')"

text \<open>The trap a template is about.\<close>

primrec trap_of :: "proxy_template \<Rightarrow> string" where
  "trap_of ProxyDefinePropertyNonConfigurable = ''defineProperty''"
| "trap_of ProxyDefinePropertyNonConfigurableWritable = ''defineProperty''"
| "trap_of ProxyDefinePropertyNonExtensible = ''defineProperty''"
| "trap_of ProxyDefinePropertyIncompatible = ''defineProperty''"
| "trap_of ProxyDeletePropertyNonConfigurable = ''deleteProperty''"
| "trap_of ProxyDeletePropertyNonExtensible = ''deleteProperty''"
| "trap_of ProxyGetNonConfigurableData = ''get''"
| "trap_of ProxyGetNonConfigurableAccessor = ''get''"
| "trap_of ProxyGetPrototypeOfInvalid = ''getPrototypeOf''"
| "trap_of ProxyGetPrototypeOfNonExtensible = ''getPrototypeOf''"
| "trap_of ProxyGetOwnPropertyDescriptorIncompatible = ''getOwnPropertyDescriptor''"
| "trap_of ProxyGetOwnPropertyDescriptorInvalid = ''getOwnPropertyDescriptor''"
| "trap_of ProxyGetOwnPropertyDescriptorUndefined = ''getOwnPropertyDescriptor''"
| "trap_of ProxyGetOwnPropertyDescriptorNonExtensible = ''getOwnPropertyDescriptor''"
| "trap_of ProxyGetOwnPropertyDescriptorNonConfigurable = ''getOwnPropertyDescriptor''"
| "trap_of ProxyGetOwnPropertyDescriptorNonConfigurableWritable = ''getOwnPropertyDescriptor''"
| "trap_of ProxyHasNonConfigurable = ''has''"
| "trap_of ProxyHasNonExtensible = ''has''"
| "trap_of ProxyIsExtensibleInconsistent = ''isExtensible''"
| "trap_of ProxyOwnKeysMissing = ''ownKeys''"
| "trap_of ProxyOwnKeysNonExtensible = ''ownKeys''"
| "trap_of ProxyOwnKeysDuplicateEntries = ''ownKeys''"
| "trap_of ProxyPreventExtensionsExtensible = ''preventExtensions''"
| "trap_of ProxySetPrototypeOfNonExtensible = ''setPrototypeOf''"
| "trap_of ProxySetFrozenData = ''set''"
| "trap_of ProxySetFrozenAccessor = ''set''"

section \<open>The object store\<close>

text \<open>
  A Set object carries the internal slot \<open>SetData\<close>, a reference to a host array of
  element slots; an emptied slot holds the host \<open>undefined\<close>, here \<^const>\<open>None\<close>. The
  store maps an object to the address of its array and an address to the array's
  contents, so that a callback running in the middle of a loop changes the very array the
  loop reads. \<open>rest\<close> is everything else a guest function can see and change.
\<close>

type_synonym entries = "val option list"

record 'h world =
  SetData :: "nat \<rightharpoonup> nat"
  arrays :: "nat \<Rightarrow> entries"
  rest :: 'h

text \<open>\<open>S.SetData\<close>: the array of the receiver, when it is an object with the slot.\<close>

definition slot_SetData :: "'h world \<Rightarrow> val \<Rightarrow> nat option" where
  "slot_SetData w S = (case S of Object r \<Rightarrow> SetData w r | _ \<Rightarrow> None)"

text \<open>
  Modelled from the spec: \<open>RequireInternalSlot\<close> lives in \<open>abstract-ops/all.mjs\<close>, which
  is not part of the source slice. The spec has the brand check fail with one fixed error,
  "missing required internal state", parameterised by the slot name and the object; the
  message catalogue names it \<open>InternalSlotMissing(o, s)\<close>.
\<close>

definition RequireInternalSlot :: "'h world \<Rightarrow> val \<Rightarrow> string \<Rightarrow> completion" where
  "RequireInternalSlot w O' slot =
     (if slot = ''SetData'' \<and> slot_SetData w O' \<noteq> None then Normal Undefined
      else surroundingAgent_Throw ''TypeError'' ''InternalSlotMissing'' [V O', H slot])"

section \<open>Set.prototype\<close>

subsection \<open>The loops over the element slots\<close>

text \<open>
  \<open>for (const e of entries) if (e !== undefined && SameValueZero(e, value) === Value.true) return ...\<close>:
  the scan of \<open>add\<close> and \<open>has\<close>. Nothing changes the array while it runs.
\<close>

fun scan :: "entries \<Rightarrow> val \<Rightarrow> bool" where
  "scan [] v = False"
| "scan (e # es) v =
     (case e of
        None \<Rightarrow> scan es v
      | Some x \<Rightarrow> if SameValueZero x v = Boolean True then True else scan es v)"

text \<open>\<open>for (let i = 0; i < entries.length; i += 1) entries[i] = undefined\<close>\<close>

function clear_loop :: "entries \<Rightarrow> nat \<Rightarrow> entries" where
  "clear_loop es i = (if i < length es then clear_loop (es[i := None]) (i + 1) else es)"
  by pat_completeness auto
termination
  by (relation "measure (\<lambda>(es, i). length es - i)") auto

declare clear_loop.simps [simp del]

text \<open>
  The loop of \<open>delete\<close>: the first slot that holds an element equal to \<open>value\<close> is
  emptied, and the loop returns \<open>true\<close> at once.
\<close>

function delete_loop :: "entries \<Rightarrow> val \<Rightarrow> nat \<Rightarrow> entries \<times> val" where
  "delete_loop es v i =
     (if i < length es then
        (case es ! i of
           None \<Rightarrow> delete_loop es v (i + 1)
         | Some e \<Rightarrow>
             if SameValueZero e v = Boolean True then (es[i := None], Boolean True)
             else delete_loop es v (i + 1))
      else (es, Boolean False))"
  by pat_completeness auto
termination
  by (relation "measure (\<lambda>(es, v, i). length es - i)") auto

declare delete_loop.simps [simp del]

text \<open>\<open>let count = 0; for (const e of entries) if (e !== undefined) count += 1\<close>\<close>

fun count_loop :: "entries \<Rightarrow> nat \<Rightarrow> nat" where
  "count_loop [] count = count"
| "count_loop (e # es) count = count_loop es (if e \<noteq> None then count + 1 else count)"

subsection \<open>The methods\<close>

text \<open>
  Every method takes its arguments, the receiver \<open>thisValue\<close> and the store, and returns
  a completion and the store it leaves. \<open>Q(...)\<close> returns an abrupt completion of its
  argument at once. After the brand check the slot is there; the branch for a missing
  slot is never taken.
\<close>

definition SetProto_add :: "val \<Rightarrow> val \<Rightarrow> 'h world \<Rightarrow> completion \<times> 'h world" where
  "SetProto_add v S w =
     (case RequireInternalSlot w S ''SetData'' of
        Normal _ \<Rightarrow>
          (case slot_SetData w S of
             None \<Rightarrow> (Normal S, w)
           | Some entries \<Rightarrow>
               if scan (arrays w entries) v then (Normal S, w)
               else
                 let v' = (case v of Number d \<Rightarrow> if d = neg_zero then F pos_zero else v | _ \<Rightarrow> v)
                 in (Normal S, w\<lparr>arrays := (arrays w)(entries := arrays w entries @ [Some v'])\<rparr>))
      | c \<Rightarrow> (c, w))"

definition SetProto_clear :: "val \<Rightarrow> 'h world \<Rightarrow> completion \<times> 'h world" where
  "SetProto_clear S w =
     (case RequireInternalSlot w S ''SetData'' of
        Normal _ \<Rightarrow>
          (case slot_SetData w S of
             None \<Rightarrow> (Normal Undefined, w)
           | Some entries \<Rightarrow>
               (Normal Undefined, w\<lparr>arrays := (arrays w)(entries := clear_loop (arrays w entries) 0)\<rparr>))
      | c \<Rightarrow> (c, w))"

definition SetProto_delete :: "val \<Rightarrow> val \<Rightarrow> 'h world \<Rightarrow> completion \<times> 'h world" where
  "SetProto_delete v S w =
     (case RequireInternalSlot w S ''SetData'' of
        Normal _ \<Rightarrow>
          (case slot_SetData w S of
             None \<Rightarrow> (Normal (Boolean False), w)
           | Some entries \<Rightarrow>
               (case delete_loop (arrays w entries) v 0 of
                  (es', r) \<Rightarrow> (Normal r, w\<lparr>arrays := (arrays w)(entries := es')\<rparr>)))
      | c \<Rightarrow> (c, w))"

definition SetProto_has :: "val \<Rightarrow> val \<Rightarrow> 'h world \<Rightarrow> completion \<times> 'h world" where
  "SetProto_has v S w =
     (case RequireInternalSlot w S ''SetData'' of
        Normal _ \<Rightarrow>
          (case slot_SetData w S of
             None \<Rightarrow> (Normal (Boolean False), w)
           | Some entries \<Rightarrow> (Normal (Boolean (scan (arrays w entries) v)), w))
      | c \<Rightarrow> (c, w))"

text \<open>The size is a count, an integral Number; it is kept as the count itself.\<close>

datatype size_result = Count nat | Abrupt completion

definition SetProto_sizeGetter :: "val \<Rightarrow> 'h world \<Rightarrow> size_result \<times> 'h world" where
  "SetProto_sizeGetter S w =
     (case RequireInternalSlot w S ''SetData'' of
        Normal _ \<Rightarrow>
          (case slot_SetData w S of
             None \<Rightarrow> (Count 0, w)
           | Some entries \<Rightarrow> (Count (count_loop (arrays w entries) 0), w))
      | c \<Rightarrow> (Abrupt c, w))"

subsection \<open>forEach\<close>

text \<open>
  \<open>Call\<close> and \<open>IsCallable\<close> live in \<open>abstract-ops/all.mjs\<close>, which is not part of the
  source slice: they are parameters. A call of a guest function runs arbitrary guest code,
  so it takes the store and returns a completion and the store it leaves.

  \<open>for (const e of entries)\<close> runs the host array iterator: every step compares the
  index with the length the array has at that moment, reads the slot at the index and
  moves the index on by one. The loop keeps a log of what it did with every index, for the
  statements below: \<open>Called i e w\<close> when it called the callback on the element \<open>e\<close> of
  slot \<open>i\<close> in the store \<open>w\<close>, \<open>Skipped i w\<close> when it found slot \<open>i\<close> empty in \<open>w\<close>.
\<close>

datatype 'h event = Called nat val "'h world" | Skipped nat "'h world"

type_synonym 'h call = "val \<Rightarrow> val \<Rightarrow> val list \<Rightarrow> 'h world \<Rightarrow> completion \<times> 'h world"

type_synonym 'h config = "'h world \<times> nat \<times> 'h event list"

type_synonym 'h outcome = "completion \<times> 'h world \<times> 'h event list"

text \<open>
  One turn of the loop, from the index \<open>i\<close>: the next configuration, or the outcome of the
  whole loop when the index has reached the length or the callback has returned an abrupt
  completion (\<open>Q(Call(callbackfn, thisArg, [e, e, S]))\<close>).
\<close>

definition forEach_step ::
  "'h call \<Rightarrow> val \<Rightarrow> val \<Rightarrow> val \<Rightarrow> nat \<Rightarrow> 'h config \<Rightarrow> 'h config + 'h outcome" where
  "forEach_step Call callbackfn thisArg S entries cfg =
     (case cfg of (w, i, log) \<Rightarrow>
        if i < length (arrays w entries) then
          (case arrays w entries ! i of
             None \<Rightarrow> Inl (w, i + 1, log @ [Skipped i w])
           | Some e \<Rightarrow>
               (case Call callbackfn thisArg [e, e, S] w of
                  (Normal _, w') \<Rightarrow> Inl (w', i + 1, log @ [Called i e w])
                | (c, w') \<Rightarrow> Inr (c, w', log @ [Called i e w])))
        else Inr (Normal Undefined, w, log))"

text \<open>
  The loop. A callback that appends an element on every call keeps it running for ever:
  then there is no outcome, \<^const>\<open>None\<close>.
\<close>

partial_function (option) forEach_loop ::
  "'h call \<Rightarrow> val \<Rightarrow> val \<Rightarrow> val \<Rightarrow> nat \<Rightarrow> 'h config \<Rightarrow> 'h outcome option" where
  "forEach_loop Call callbackfn thisArg S entries cfg =
     (case forEach_step Call callbackfn thisArg S entries cfg of
        Inl cfg' \<Rightarrow> forEach_loop Call callbackfn thisArg S entries cfg'
      | Inr out \<Rightarrow> Some out)"

definition SetProto_forEach ::
  "'h call \<Rightarrow> (val \<Rightarrow> val) \<Rightarrow> val \<Rightarrow> val \<Rightarrow> val \<Rightarrow> 'h world \<Rightarrow> 'h outcome option" where
  "SetProto_forEach Call IsCallable callbackfn thisArg S w =
     (case RequireInternalSlot w S ''SetData'' of
        Normal _ \<Rightarrow>
          if IsCallable callbackfn = Boolean False
          then Some (surroundingAgent_Throw ''TypeError'' ''NotAFunction'' [V callbackfn], w, [])
          else
            (case slot_SetData w S of
               None \<Rightarrow> Some (Normal Undefined, w, [])
             | Some entries \<Rightarrow> forEach_loop Call callbackfn thisArg S entries (w, 0, []))
      | c \<Rightarrow> Some (c, w, []))"

text \<open>
  One turn of the loop leads from a configuration to the next; the configurations a run
  passes through are those the start reaches by turns.
\<close>

definition forEach_next ::
  "'h call \<Rightarrow> val \<Rightarrow> val \<Rightarrow> val \<Rightarrow> nat \<Rightarrow> 'h config \<Rightarrow> 'h config \<Rightarrow> bool" where
  "forEach_next Call callbackfn thisArg S entries cfg cfg' =
     (forEach_step Call callbackfn thisArg S entries cfg = Inl cfg')"

text \<open>What the log says: the index of an entry, the store it was made in, the store it left.\<close>

fun event_index :: "'h event \<Rightarrow> nat" where
  "event_index (Called i e w) = i"
| "event_index (Skipped i w) = i"

fun event_store :: "'h event \<Rightarrow> 'h world" where
  "event_store (Called i e w) = w"
| "event_store (Skipped i w) = w"

fun store_after :: "'h call \<Rightarrow> val \<Rightarrow> val \<Rightarrow> val \<Rightarrow> 'h event \<Rightarrow> 'h world" where
  "store_after Call callbackfn thisArg S (Called i e w) = snd (Call callbackfn thisArg [e, e, S] w)"
| "store_after Call callbackfn thisArg S (Skipped i w) = w"

text \<open>An entry of the log agrees with the array: a call was on the element the slot held.\<close>

fun event_ok :: "nat \<Rightarrow> 'h event \<Rightarrow> bool" where
  "event_ok entries (Called i e w) = (i < length (arrays w entries) \<and> arrays w entries ! i = Some e)"
| "event_ok entries (Skipped i w) = (i < length (arrays w entries) \<and> arrays w entries ! i = None)"

text \<open>The calls of the log: the slot and the element of each.\<close>

fun visited :: "'h event list \<Rightarrow> (nat \<times> val) list" where
  "visited [] = []"
| "visited (Called i e w # evs) = (i, e) # visited evs"
| "visited (Skipped i w # evs) = visited evs"

text \<open>
  The entries of a log were made in consecutive stores: the first in the store \<open>w\<close>, each
  later one in the store the entry before it left, and the last one left \<open>w'\<close>.
\<close>

fun follows :: "'h call \<Rightarrow> val \<Rightarrow> val \<Rightarrow> val \<Rightarrow> 'h world \<Rightarrow> 'h event list \<Rightarrow> 'h world \<Rightarrow> bool" where
  "follows Call callbackfn thisArg S w [] w' = (w' = w)"
| "follows Call callbackfn thisArg S w (ev # evs) w' =
     (event_store ev = w \<and> follows Call callbackfn thisArg S (store_after Call callbackfn thisArg S ev) evs w')"

text \<open>The slots of an array that hold an element, from the index \<open>i\<close> of its first slot on.\<close>

fun live_from :: "nat \<Rightarrow> entries \<Rightarrow> (nat \<times> val) list" where
  "live_from i [] = []"
| "live_from i (None # es) = live_from (i + 1) es"
| "live_from i (Some e # es) = (i, e) # live_from (i + 1) es"

section \<open>Example stores\<close>

text \<open>A store with one Set object, \<open>Object 0\<close>, whose array holds a hole between two elements.\<close>

definition w_demo :: "unit world" where
  "w_demo = \<lparr>SetData = [0 \<mapsto> 0],
             arrays = (\<lambda>_. [])(0 := [Some (Number 1), None, Some (String ''a'')]),
             rest = ()\<rparr>"

text \<open>A store with one Set object, \<open>Object 0\<close>, as the constructor leaves it: an empty array.\<close>

definition w_new :: "unit world" where
  "w_new = \<lparr>SetData = [0 \<mapsto> 0], arrays = (\<lambda>_. []), rest = ()\<rparr>"

section \<open>Reachable stores\<close>

text \<open>No two slots of an array hold elements that are SameValueZero-equal.\<close>

definition no_duplicates :: "entries \<Rightarrow> bool" where
  "no_duplicates es =
     (\<forall>j\<in>{..<length es}. \<forall>i\<in>{..<j}.
        case (es ! i, es ! j) of
          (Some x, Some y) \<Rightarrow> SameValueZero x y \<noteq> Boolean True
        | _ \<Rightarrow> True)"

text \<open>
  The stores a Set object \<open>S\<close> can be in: it is created with an empty array, and from then
  on the store changes by the methods of \<open>Set.prototype\<close>, on this receiver or on any
  other, and by guest code that leaves the slot and the array of \<open>S\<close> alone. (A callback
  of \<open>forEach\<close> is guest code: it reaches the array through these methods only.)
\<close>

inductive reachable :: "val \<Rightarrow> 'h world \<Rightarrow> bool" for S :: val where
  created: "slot_SetData w S = Some a \<Longrightarrow> arrays w a = [] \<Longrightarrow> reachable S w"
| add: "reachable S w \<Longrightarrow> reachable S (snd (SetProto_add v S' w))"
| clear: "reachable S w \<Longrightarrow> reachable S (snd (SetProto_clear S' w))"
| delete: "reachable S w \<Longrightarrow> reachable S (snd (SetProto_delete v S' w))"
| other: "reachable S w \<Longrightarrow> slot_SetData w S = Some a \<Longrightarrow> slot_SetData w' S = Some a \<Longrightarrow>
          arrays w' a = arrays w a \<Longrightarrow> reachable S w'"

text \<open>
  Stores with the Set object \<open>Object 0\<close> holding \<open>"a"\<close>, and \<open>"a"\<close>, \<open>"b"\<close>, \<open>"c"\<close>; and
  three callbacks: one that does nothing, one that throws on \<open>"b"\<close>, and one that adds
  \<open>"b"\<close> to the Set when it is called on \<open>"a"\<close>.
\<close>

definition w_a :: "unit world" where
  "w_a = \<lparr>SetData = [0 \<mapsto> 0], arrays = (\<lambda>_. [])(0 := [Some (String ''a'')]), rest = ()\<rparr>"

definition w_abc :: "unit world" where
  "w_abc = \<lparr>SetData = [0 \<mapsto> 0],
            arrays = (\<lambda>_. [])(0 := [Some (String ''a''), Some (String ''b''), Some (String ''c'')]),
            rest = ()\<rparr>"

definition quiet_call :: "unit call" where
  "quiet_call f t as w = (Normal Undefined, w)"

definition stopping_call :: "unit call" where
  "stopping_call f t as w =
     (if as = [String ''b'', String ''b'', Object 0] then (Throw (Val (String ''stop'')), w)
      else (Normal Undefined, w))"

definition adding_call :: "unit call" where
  "adding_call f t as w =
     (if as = [String ''a'', String ''a'', Object 0]
      then (Normal Undefined, snd (SetProto_add (String ''b'') (Object 0) w))
      else (Normal Undefined, w))"

text \<open>A test for the one function object of the examples, \<open>Object 1\<close>.\<close>

definition is_fn :: "val \<Rightarrow> val" where
  "is_fn v = Boolean (v = Object 1)"

text \<open>The Set \<open>Object 0\<close> after \<open>add(1)\<close> on the new Set.\<close>

definition w_one :: "unit world" where
  "w_one = snd (SetProto_add (Number double_1) (Object 0) w_new)"

section \<open>Intl.DateTimeFormat\<close>

subsection \<open>Guest computations\<close>

text \<open>
  An operation that may run guest code (a conversion of an object calls its \<open>toString\<close>)
  takes the guest state and returns an abrupt completion or its result, and the state it
  leaves. \<open>Q(...)\<close> returns an abrupt completion of its argument at once and goes on with
  the result otherwise.
\<close>

type_synonym ('st, 'a) guest = "'st \<Rightarrow> (completion + 'a) \<times> 'st"

definition ret :: "'a \<Rightarrow> ('st, 'a) guest" where
  "ret x st = (Inr x, st)"

definition abrupt :: "completion \<Rightarrow> ('st, 'a) guest" where
  "abrupt c st = (Inl c, st)"

definition Q :: "('st, 'a) guest \<Rightarrow> ('a \<Rightarrow> ('st, 'b) guest) \<Rightarrow> ('st, 'b) guest" where
  "Q m k st = (case m st of (Inl c, st') \<Rightarrow> (Inl c, st') | (Inr x, st') \<Rightarrow> k x st')"

subsection \<open>The host\<close>

text \<open>
  Host values, as far as the constructor passes them on: the primitives that cross the
  bridge, and anything else carried as it is.

  Modelled from the spec: \<open>bridgeableForHost\<close> and the \<open>Value\<close> constructor live in
  \<open>value.mjs\<close>, which is not part of the source slice. The spec has the two conversions
  total and inverse to each other on strings, numbers and booleans; the source compares
  \<open>new Value(undefined)\<close> with \<open>Value.undefined\<close>, so \<open>undefined\<close> crosses as itself.
\<close>

datatype host_value = HUndefined | HBoolean bool | HNumber double | HString string | HOther val

definition bridgeableForHost :: "val \<Rightarrow> host_value" where
  "bridgeableForHost v =
     (case v of
        Undefined \<Rightarrow> HUndefined
      | Boolean b \<Rightarrow> HBoolean b
      | Number d \<Rightarrow> HNumber d
      | String s \<Rightarrow> HString s
      | _ \<Rightarrow> HOther v)"

definition new_Value :: "host_value \<Rightarrow> val" where
  "new_Value h =
     (case h of
        HUndefined \<Rightarrow> Undefined
      | HBoolean b \<Rightarrow> Boolean b
      | HNumber d \<Rightarrow> Number d
      | HString s \<Rightarrow> String s
      | HOther v \<Rightarrow> v)"

text \<open>An error the host throws, and a host options object: its properties in order.\<close>

record host_error =
  err_name :: string
  err_message :: string

type_synonym host_options = "(string \<times> host_value) list"

text \<open>\<open>hostOptions[prop]\<close> and \<open>hostOptions[prop] = v\<close>\<close>

definition get_option :: "host_options \<Rightarrow> string \<Rightarrow> host_value" where
  "get_option hostOptions prop = (case map_of hostOptions prop of None \<Rightarrow> HUndefined | Some v \<Rightarrow> v)"

fun set_option :: "string \<Rightarrow> host_value \<Rightarrow> host_options \<Rightarrow> host_options" where
  "set_option prop v [] = [(prop, v)]"
| "set_option prop v ((k, x) # hostOptions) =
     (if k = prop then (k, v) # hostOptions else (k, x) # set_option prop v hostOptions)"

text \<open>
  What the constructor takes from outside the source slice, as parameters: the abstract
  operations of \<open>abstract-ops/all.mjs\<close> (\<open>Get\<close> on a guest object whose properties are
  data properties, which reads the state and returns a value; the conversions, which may
  run guest code; \<open>OrdinaryCreateFromConstructor\<close>; \<open>ArrayProto_map\<close> followed by
  \<open>CreateListFromArrayLike\<close>, which calls the callback on the elements of an array-like),
  the active function object of the agent, and the host: \<open>new Intl.Locale(tag)\<close> with the
  error it throws if any, \<open>new Intl.DateTimeFormat(locales, options)\<close> with the instance
  or the error it throws, the resolved time zone of an instance, and the comparison and
  \<open>Math.floor\<close> of host numbers.
\<close>

record ('st, 'i) env =
  Get_data :: "'st \<Rightarrow> nat \<Rightarrow> string \<Rightarrow> val"
  ToObject :: "val \<Rightarrow> ('st, nat) guest"
  ToString :: "val \<Rightarrow> ('st, string) guest"
  ToNumber :: "val \<Rightarrow> ('st, double) guest"
  ToBoolean :: "val \<Rightarrow> bool"
  OrdinaryCreateFromConstructor :: "val \<Rightarrow> ('st, nat) guest"
  ArrayProto_map :: "(val \<Rightarrow> ('st, val) guest) \<Rightarrow> val \<Rightarrow> ('st, val list) guest"
  activeFunctionObject :: val
  Intl_Locale :: "string \<Rightarrow> host_error option"
  hostDTF :: "host_value list option \<Rightarrow> host_options \<Rightarrow> host_error + 'i"
  resolvedOptions_timeZone :: "'i \<Rightarrow> string"
  host_less :: "double \<Rightarrow> double \<Rightarrow> bool"
  Math_floor :: "double \<Rightarrow> double"

subsection \<open>Options objects\<close>

text \<open>
  The object the options are read from: a guest object, or an object the constructor has
  just made with \<open>OrdinaryObjectCreate\<close>, with the data properties it has given it and a
  guest object or \<open>null\<close> as its prototype. No guest code can reach such a fresh object.
\<close>

datatype options_object = GuestObject nat | FreshObject "(string \<times> val) list" "nat option"

definition Get :: "('st, 'i) env \<Rightarrow> 'st \<Rightarrow> options_object \<Rightarrow> string \<Rightarrow> val" where
  "Get E st O' P =
     (case O' of
        GuestObject r \<Rightarrow> Get_data E st r P
      | FreshObject props proto \<Rightarrow>
          (case map_of props P of
             Some v \<Rightarrow> v
           | None \<Rightarrow> (case proto of None \<Rightarrow> Undefined | Some r \<Rightarrow> Get_data E st r P)))"

definition OrdinaryObjectCreate :: "nat option \<Rightarrow> options_object" where
  "OrdinaryObjectCreate proto = FreshObject [] proto"

text \<open>\<open>CreateDataPropertyOrThrow\<close> on a fresh object, which is extensible: it never throws.\<close>

fun CreateDataPropertyOrThrow :: "options_object \<Rightarrow> string \<Rightarrow> val \<Rightarrow> options_object" where
  "CreateDataPropertyOrThrow (FreshObject props proto) P v = FreshObject (AList.update P v props) proto"
| "CreateDataPropertyOrThrow (GuestObject r) P v = GuestObject r"

definition CoerceOptionsToObject :: "('st, 'i) env \<Rightarrow> val \<Rightarrow> ('st, options_object) guest" where
  "CoerceOptionsToObject E options =
     (if options = Undefined then ret (OrdinaryObjectCreate None)
      else Q (ToObject E options) (\<lambda>r. ret (GuestObject r)))"

subsection \<open>Reading an option\<close>

datatype option_type = TBoolean | TNumber | TString

datatype default_value = Required | Default val

definition GetOption ::
  "('st, 'i) env \<Rightarrow> options_object \<Rightarrow> string \<Rightarrow> option_type \<Rightarrow> val list option \<Rightarrow> default_value
     \<Rightarrow> ('st, val) guest" where
  "GetOption E options name ty values defaultValue st =
     (let v0 = Get E st options name in
      if v0 = Undefined then
        (case defaultValue of
           Required \<Rightarrow>
             abrupt (surroundingAgent_Throw ''RangeError'' ''MissingRequiredProperty'' [V (String name)]) st
         | Default d \<Rightarrow> ret d st)
      else
        Q (case ty of
             TBoolean \<Rightarrow> ret (Boolean (ToBoolean E v0))
           | TNumber \<Rightarrow>
               Q (ToNumber E v0)
                 (\<lambda>n. if isNaN n
                      then abrupt (surroundingAgent_Throw ''RangeError'' ''OutOfRange'' [V (String name)])
                      else ret (Number n))
           | TString \<Rightarrow> Q (ToString E v0) (\<lambda>s. ret (String s)))
          (\<lambda>v. if (case values of
                      None \<Rightarrow> False
                    | Some vs \<Rightarrow> \<not> list_ex (\<lambda>x. SameValue x v = Boolean True) vs)
               then abrupt (surroundingAgent_Throw ''RangeError'' ''UnsupportedValueForProperty''
                              [V (String name), V v])
               else ret v) st)"

definition GetNumberOption ::
  "('st, 'i) env \<Rightarrow> options_object \<Rightarrow> string \<Rightarrow> double \<Rightarrow> double \<Rightarrow> val \<Rightarrow> ('st, val) guest" where
  "GetNumberOption E options name minimum maximum defaultValue st =
     (let v0 = Get E st options name in
      if v0 = Undefined then ret defaultValue st
      else
        Q (ToNumber E v0)
          (\<lambda>hostValue.
             if isNaN hostValue \<or> host_less E hostValue minimum \<or> host_less E maximum hostValue
             then abrupt (surroundingAgent_Throw ''RangeError'' ''OutOfRange'' [V (String name)])
             else ret (Number (Math_floor E hostValue))) st)"

text \<open>
  \<open>hostGetOption\<close> takes the allowed values and the default in the host domain:
  \<open>NO_ENUM\<close> is \<^const>\<open>None\<close> here, and a default that is left out is \<open>undefined\<close>.
\<close>

datatype host_default = REQUIRED | HostDefault host_value

definition hostGetOption ::
  "('st, 'i) env \<Rightarrow> options_object \<Rightarrow> string \<Rightarrow> option_type \<Rightarrow> host_value list option
     \<Rightarrow> host_default \<Rightarrow> ('st, val) guest" where
  "hostGetOption E options hostName ty hostValues hostDefaultValue =
     GetOption E options hostName ty (map_option (map new_Value) hostValues)
       (case hostDefaultValue of REQUIRED \<Rightarrow> Required | HostDefault d \<Rightarrow> Default (new_Value d))"

subsection \<open>Locales\<close>

definition toLanguageTag :: "('st, 'i) env \<Rightarrow> val \<Rightarrow> ('st, val) guest" where
  "toLanguageTag E item =
     (if \<not> ((case item of String _ \<Rightarrow> True | _ \<Rightarrow> False) \<or> (case item of Object _ \<Rightarrow> True | _ \<Rightarrow> False))
      then abrupt (surroundingAgent_Throw ''TypeError'' ''NotATypeObject'' [H ''string or'', V item])
      else
        Q (ToString E item)
          (\<lambda>tag. case Intl_Locale E tag of
                    Some err \<Rightarrow>
                      abrupt (surroundingAgent_Throw ''RangeError'' ''NotWellFormed''
                                [H ''locale identifier'', V (String tag)])
                  | None \<Rightarrow> ret (String tag)))"

definition limitedCanonicalizeLocaleList :: "('st, 'i) env \<Rightarrow> val \<Rightarrow> ('st, val list) guest" where
  "limitedCanonicalizeLocaleList E locales =
     (if locales = Undefined then ret []
      else if (case locales of String _ \<Rightarrow> True | _ \<Rightarrow> False) then ret [locales]
      else ArrayProto_map E (toLanguageTag E) locales)"

subsection \<open>The components of a format\<close>

text \<open>\<open>/^[a-zA-Z0-9]{3,8}(?:-[a-zA-Z0-9]{3,8})*$/\<close>: groups of 3 to 8 letters or digits, set apart by \<open>-\<close>.\<close>

definition alnum :: "char \<Rightarrow> bool" where
  "alnum c =
     (let n = (of_char c :: nat)
      in 48 \<le> n \<and> n \<le> 57 \<or> 65 \<le> n \<and> n \<le> 90 \<or> 97 \<le> n \<and> n \<le> 122)"

fun split_dash :: "string \<Rightarrow> string list" where
  "split_dash [] = [[]]"
| "split_dash (c # cs) =
     (if c = CHR ''-'' then [] # split_dash cs
      else (case split_dash cs of [] \<Rightarrow> [[c]] | g # gs \<Rightarrow> (c # g) # gs))"

definition UTS35Type_test :: "host_value \<Rightarrow> bool" where
  "UTS35Type_test h =
     (case h of
        HString s \<Rightarrow> list_all (\<lambda>g. 3 \<le> length g \<and> length g \<le> 8 \<and> list_all alnum g) (split_dash s)
      | _ \<Rightarrow> False)"

definition INTL_TEXT_OPTION_VALUES :: "host_value list" where
  "INTL_TEXT_OPTION_VALUES = [HString ''narrow'', HString ''short'', HString ''long'']"

definition INTL_NUMERIC_OPTION_VALUES :: "host_value list" where
  "INTL_NUMERIC_OPTION_VALUES = [HString ''2-digit'', HString ''numeric'']"

definition DTF_COMPONENTS :: "(string \<times> host_value list) list" where
  "DTF_COMPONENTS =
     [(''weekday'', INTL_TEXT_OPTION_VALUES),
      (''era'', INTL_TEXT_OPTION_VALUES),
      (''year'', INTL_NUMERIC_OPTION_VALUES),
      (''month'', INTL_NUMERIC_OPTION_VALUES @ INTL_TEXT_OPTION_VALUES),
      (''day'', INTL_NUMERIC_OPTION_VALUES),
      (''dayPeriod'', INTL_TEXT_OPTION_VALUES),
      (''hour'', INTL_NUMERIC_OPTION_VALUES),
      (''minute'', INTL_NUMERIC_OPTION_VALUES),
      (''second'', INTL_NUMERIC_OPTION_VALUES),
      (''fractionalSecondDigits'', [HNumber double_1, HNumber double_2, HNumber double_3]),
      (''timeZoneName'',
       [HString ''short'', HString ''long'', HString ''shortOffset'', HString ''longOffset'',
        HString ''shortGeneric'', HString ''longGeneric''])]"

text \<open>
  \<open>for (const [hostName, hostValues] of Object.entries(DTF_COMPONENTS))\<close>: the loop reads
  every component into \<open>hostOptions\<close> and notes whether one is there.
\<close>

fun read_components ::
  "('st, 'i) env \<Rightarrow> options_object \<Rightarrow> (string \<times> host_value list) list \<Rightarrow> host_options \<times> bool
     \<Rightarrow> ('st, host_options \<times> bool) guest" where
  "read_components E options [] acc = ret acc"
| "read_components E options ((hostName, hostValues) # components) (hostOptions, hasExplicitFormatComponents) =
     Q (if hostName = ''fractionalSecondDigits''
        then GetNumberOption E options hostName double_1 double_3 Undefined
        else hostGetOption E options hostName TString (Some hostValues) (HostDefault HUndefined))
       (\<lambda>v. read_components E options components
               (set_option hostName (bridgeableForHost v) hostOptions,
                if v \<noteq> Undefined then True else hasExplicitFormatComponents))"

subsection \<open>The options of the host instance\<close>

text \<open>
  From \<open>localeMatcher\<close> to \<open>timeStyle\<close>: the text of \<open>CreateDateTimeFormat\<close> in the one
  variant of the constructor and of \<open>DTFConstructor\<close> in the other is the same here. It
  returns \<open>hostOptions\<close> and \<open>hasExplicitFormatComponents\<close>.
\<close>

definition not_well_formed_keyword :: "val \<Rightarrow> completion" where
  "not_well_formed_keyword v =
     surroundingAgent_Throw ''RangeError'' ''NotWellFormed''
       [H ''Unicode BCP 47 -u- extension keyword type value'', V v]"

definition read_timeZone :: "('st, 'i) env \<Rightarrow> options_object \<Rightarrow> ('st, val) guest" where
  "read_timeZone E options st =
     (let timeZone = Get E st options ''timeZone'' in
      if timeZone \<noteq> Undefined then
        Q (ToString E timeZone)
          (\<lambda>tz. case hostDTF E None [(''timeZone'', bridgeableForHost (String tz))] of
                   Inl err \<Rightarrow>
                     abrupt (surroundingAgent_Throw ''RangeError'' ''NotWellFormed''
                               [H ''IANA time zone name'', V (String tz)])
                 | Inr instance \<Rightarrow> ret (new_Value (HString (resolvedOptions_timeZone E instance)))) st
      else ret timeZone st)"

definition InitializeDateTimeFormat ::
  "('st, 'i) env \<Rightarrow> options_object \<Rightarrow> ('st, host_options \<times> bool) guest" where
  "InitializeDateTimeFormat E options =
     Q (hostGetOption E options ''localeMatcher'' TString
          (Some [HString ''lookup'', HString ''best fit'']) (HostDefault (HString ''best fit'')))
       (\<lambda>localeMatcher.
     Q (hostGetOption E options ''calendar'' TString None (HostDefault HUndefined))
       (\<lambda>calendar.
     if calendar \<noteq> Undefined \<and> \<not> UTS35Type_test (bridgeableForHost calendar)
     then abrupt (not_well_formed_keyword calendar)
     else
     Q (hostGetOption E options ''numberingSystem'' TString None (HostDefault HUndefined))
       (\<lambda>numberingSystem.
     if numberingSystem \<noteq> Undefined \<and> \<not> UTS35Type_test (bridgeableForHost numberingSystem)
     then abrupt (not_well_formed_keyword numberingSystem)
     else
     Q (hostGetOption E options ''hour12'' TBoolean None (HostDefault HUndefined))
       (\<lambda>hour12.
     Q (hostGetOption E options ''hourCycle'' TString
          (Some [HString ''h11'', HString ''h12'', HString ''h23'', HString ''h24''])
          (HostDefault HUndefined))
       (\<lambda>hourCycle.
     Q (read_timeZone E options)
       (\<lambda>timeZone.
     Q (read_components E options DTF_COMPONENTS
          ([(''localeMatcher'', bridgeableForHost localeMatcher),
            (''calendar'', bridgeableForHost calendar),
            (''numberingSystem'', bridgeableForHost numberingSystem),
            (''hour12'', bridgeableForHost hour12),
            (''hourCycle'', bridgeableForHost hourCycle),
            (''timeZone'', bridgeableForHost timeZone)], False))
       (\<lambda>(hostOptions, hasExplicitFormatComponents).
     Q (hostGetOption E options ''formatMatcher'' TString
          (Some [HString ''basic'', HString ''best fit'']) (HostDefault (HString ''best fit'')))
       (\<lambda>formatMatcher.
     Q (hostGetOption E options ''dateStyle'' TString
          (Some [HString ''full'', HString ''long'', HString ''medium'', HString ''short''])
          (HostDefault HUndefined))
       (\<lambda>dateStyle.
     Q (hostGetOption E options ''timeStyle'' TString
          (Some [HString ''full'', HString ''long'', HString ''medium'', HString ''short''])
          (HostDefault HUndefined))
       (\<lambda>timeStyle.
     ret (set_option ''timeStyle'' (bridgeableForHost timeStyle)
            (set_option ''dateStyle'' (bridgeableForHost dateStyle)
               (set_option ''formatMatcher'' (bridgeableForHost formatMatcher) hostOptions)),
          hasExplicitFormatComponents)))))))))))"

text \<open>
  The last step of both variants: the host instance is made from the host locales and
  options, and an error the host throws becomes a guest error of the same name with the
  host's message (\<open>surroundingAgent.Throw(err.name, 'Raw', err.message)\<close>). The result is
  the new object with the instance in its \<open>HostDTFInstance\<close> slot.
\<close>

definition construct_HostDTFInstance ::
  "('st, 'i) env \<Rightarrow> nat \<times> host_value list \<times> host_options \<Rightarrow> ('st, nat \<times> 'i) guest" where
  "construct_HostDTFInstance E prepared =
     (case prepared of (dateTimeFormat, hostRequestedLocales, hostOptions) \<Rightarrow>
        (case hostDTF E (Some hostRequestedLocales) hostOptions of
           Inl err \<Rightarrow> abrupt (surroundingAgent_Throw (err_name err) ''Raw'' [H (err_message err)])
         | Inr instance \<Rightarrow> ret (dateTimeFormat, instance)))"

subsection \<open>The constructor that applies the defaults after reading\<close>

definition dq :: "string \<Rightarrow> string" where
  "dq s = CHR 0x22 # s @ [CHR 0x22]"

text \<open>
  \<open>CreateDateTimeFormat\<close>, after the options are read: the check of \<open>dateStyle\<close> and
  \<open>timeStyle\<close> against the components, or else the defaults of the category.
\<close>

definition apply_defaults ::
  "string \<Rightarrow> string \<Rightarrow> host_options \<times> bool \<Rightarrow> ('st, host_options) guest" where
  "apply_defaults requiredCategory defaultsCategory read =
     (case read of (hostOptions, hasExplicitFormatComponents) \<Rightarrow>
        if get_option hostOptions ''dateStyle'' \<noteq> HUndefined \<or> get_option hostOptions ''timeStyle'' \<noteq> HUndefined
        then
          (if hasExplicitFormatComponents
           then abrupt (surroundingAgent_Throw ''TypeError'' ''IncompatibleOptions''
                  [H (dq ''dateStyle'' @ '' and '' @ dq ''timeStyle'' @ '' prohibit component-specific formatting'')])
           else if requiredCategory = ''date'' \<and> get_option hostOptions ''timeStyle'' \<noteq> HUndefined
           then abrupt (surroundingAgent_Throw ''TypeError'' ''IncompatibleOptions''
                  [H (''date-only formatting prohibits '' @ dq ''timeStyle'')])
           else if requiredCategory = ''time'' \<and> get_option hostOptions ''dateStyle'' \<noteq> HUndefined
           then abrupt (surroundingAgent_Throw ''TypeError'' ''IncompatibleOptions''
                  [H (''time-only formatting prohibits '' @ dq ''dateStyle'')])
           else ret hostOptions)
        else
          (let needDefaults =
                 (\<not> ((requiredCategory = ''date'' \<or> requiredCategory = ''any'') \<and>
                      list_ex (\<lambda>prop. get_option hostOptions prop \<noteq> HUndefined)
                        [''weekday'', ''year'', ''month'', ''day''])
                  \<and> \<not> ((requiredCategory = ''time'' \<or> requiredCategory = ''any'') \<and>
                      list_ex (\<lambda>prop. get_option hostOptions prop \<noteq> HUndefined)
                        [''dayPeriod'', ''hour'', ''minute'', ''second'', ''fractionalSecondDigits'']));
               hostOptions =
                 (if needDefaults \<and> defaultsCategory \<in> set [''date'', ''all'']
                  then fold (\<lambda>prop. set_option prop (HString ''numeric'')) [''year'', ''month'', ''day''] hostOptions
                  else hostOptions);
               hostOptions =
                 (if needDefaults \<and> defaultsCategory \<in> set [''time'', ''all'']
                  then fold (\<lambda>prop. set_option prop (HString ''numeric'')) [''hour'', ''minute'', ''second''] hostOptions
                  else hostOptions)
           in ret hostOptions))"

definition CreateDateTimeFormat_prepare ::
  "('st, 'i) env \<Rightarrow> val \<Rightarrow> val \<Rightarrow> val \<Rightarrow> string \<Rightarrow> string
     \<Rightarrow> ('st, nat \<times> host_value list \<times> host_options) guest" where
  "CreateDateTimeFormat_prepare E newTarget locales options requiredCategory defaultsCategory =
     Q (OrdinaryCreateFromConstructor E newTarget)
       (\<lambda>dateTimeFormat.
     Q (limitedCanonicalizeLocaleList E locales)
       (\<lambda>requestedLocales.
     Q (CoerceOptionsToObject E options)
       (\<lambda>options.
     Q (InitializeDateTimeFormat E options)
       (\<lambda>read.
     Q (apply_defaults requiredCategory defaultsCategory read)
       (\<lambda>hostOptions.
     ret (dateTimeFormat, map bridgeableForHost requestedLocales, hostOptions))))))"

definition CreateDateTimeFormat ::
  "('st, 'i) env \<Rightarrow> val \<Rightarrow> val \<Rightarrow> val \<Rightarrow> string \<Rightarrow> string \<Rightarrow> ('st, nat \<times> 'i) guest" where
  "CreateDateTimeFormat E newTarget locales options requiredCategory defaultsCategory =
     Q (CreateDateTimeFormat_prepare E newTarget locales options requiredCategory defaultsCategory)
       (construct_HostDTFInstance E)"

definition DTFConstructor_001 ::
  "('st, 'i) env \<Rightarrow> val \<Rightarrow> val \<Rightarrow> val \<Rightarrow> ('st, nat \<times> 'i) guest" where
  "DTFConstructor_001 E locales options NewTarget =
     CreateDateTimeFormat E (if NewTarget = Undefined then activeFunctionObject E else NewTarget)
       locales options ''any'' ''date''"

subsection \<open>The constructor that applies the defaults before reading\<close>

definition ToDateTimeOptions ::
  "('st, 'i) env \<Rightarrow> val \<Rightarrow> val \<Rightarrow> val \<Rightarrow> ('st, options_object) guest" where
  "ToDateTimeOptions E options required defaults =
     Q (if options = Undefined then ret None else Q (ToObject E options) (\<lambda>r. ret (Some r)))
       (\<lambda>proto st.
          let options = OrdinaryObjectCreate proto;
              hostRequiredCategory = bridgeableForHost required;
              needDefaults =
                (\<not> ((hostRequiredCategory = HString ''date'' \<or> hostRequiredCategory = HString ''any'') \<and>
                     list_ex (\<lambda>prop. Get E st options prop \<noteq> Undefined)
                       [''weekday'', ''year'', ''month'', ''day''])
                 \<and> \<not> ((hostRequiredCategory = HString ''time'' \<or> hostRequiredCategory = HString ''any'') \<and>
                     list_ex (\<lambda>prop. Get E st options prop \<noteq> Undefined)
                       [''dayPeriod'', ''hour'', ''minute'', ''second'', ''fractionalSecondDigits'']));
              dateStyle = Get E st options ''dateStyle'';
              timeStyle = Get E st options ''timeStyle'';
              needDefaults = (if dateStyle \<noteq> Undefined \<or> timeStyle \<noteq> Undefined then False else needDefaults)
          in
            if hostRequiredCategory = HString ''date'' \<and> timeStyle \<noteq> Undefined
            then abrupt (surroundingAgent_Throw ''TypeError'' ''IncompatibleOptions''
                   [H (''date-only formatting prohibits '' @ dq ''timeStyle'')]) st
            else if hostRequiredCategory = HString ''time'' \<and> dateStyle \<noteq> Undefined
            then abrupt (surroundingAgent_Throw ''TypeError'' ''IncompatibleOptions''
                   [H (''time-only formatting prohibits '' @ dq ''dateStyle'')]) st
            else
              let hostDefaultsCategory = bridgeableForHost defaults;
                  options =
                    (if needDefaults \<and> hostDefaultsCategory \<in> set [HString ''date'', HString ''all'']
                     then fold (\<lambda>prop O'. CreateDataPropertyOrThrow O' prop (new_Value (HString ''numeric'')))
                            [''year'', ''month'', ''day''] options
                     else options);
                  options =
                    (if needDefaults \<and> hostDefaultsCategory \<in> set [HString ''time'', HString ''all'']
                     then fold (\<lambda>prop O'. CreateDataPropertyOrThrow O' prop (new_Value (HString ''numeric'')))
                            [''hour'', ''minute'', ''second''] options
                     else options)
              in ret options st)"

definition DTFConstructor_002_prepare ::
  "('st, 'i) env \<Rightarrow> val \<Rightarrow> val \<Rightarrow> val \<Rightarrow> ('st, nat \<times> host_value list \<times> host_options) guest" where
  "DTFConstructor_002_prepare E locales options NewTarget =
     Q (OrdinaryCreateFromConstructor E (if NewTarget = Undefined then activeFunctionObject E else NewTarget))
       (\<lambda>dtf.
     Q (limitedCanonicalizeLocaleList E locales)
       (\<lambda>requestedLocales.
     Q (ToDateTimeOptions E options (new_Value (HString ''any'')) (new_Value (HString ''date'')))
       (\<lambda>options.
     Q (InitializeDateTimeFormat E options)
       (\<lambda>read.
     case read of (hostOptions, hasExplicitFormatComponents) \<Rightarrow>
       let broadStyle = (get_option hostOptions ''dateStyle'' \<noteq> HUndefined
                         \<or> get_option hostOptions ''timeStyle'' \<noteq> HUndefined)
       in if broadStyle \<and> hasExplicitFormatComponents
          then abrupt (surroundingAgent_Throw ''TypeError'' ''IncompatibleOptions''
                 [H (dq ''dateStyle'' @ '' and '' @ dq ''timeStyle'' @ '' prohibit field-specific formatting'')])
          else ret (dtf, map bridgeableForHost requestedLocales, hostOptions)))))"

definition DTFConstructor_002 ::
  "('st, 'i) env \<Rightarrow> val \<Rightarrow> val \<Rightarrow> val \<Rightarrow> ('st, nat \<times> 'i) guest" where
  "DTFConstructor_002 E locales options NewTarget =
     Q (DTFConstructor_002_prepare E locales options NewTarget) (construct_HostDTFInstance E)"

subsection \<open>The methods that call the host\<close>










subsection \<open>An example host and guest\<close>

text \<open>
  The guest state is the list of the own data properties of the guest object \<open>Object 0\<close>;
  no other object has a property, and \<open>Object 7\<close> is an array whose only element is
  the language tag \<open>en-\<close>. \<open>Object 5\<close> is an object whose \<open>toString\<close> sets the
  property \<open>weekday\<close> of \<open>Object 0\<close> to \<open>"long"\<close> and returns \<open>"gregory"\<close>. The host
  rejects the language tag \<open>en-\<close>, the time zone \<open>Mars/Phobos\<close> and the calendar
  \<open>bogus\<close>, and otherwise hands out the locales and options as the instance.
\<close>

definition E_demo :: "((string \<times> val) list, host_value list option \<times> host_options) env" where
  "E_demo =
     \<lparr>Get_data = (\<lambda>st r P. if r = 0 then (case map_of st P of None \<Rightarrow> Undefined | Some v \<Rightarrow> v) else Undefined),
      ToObject = (\<lambda>v. case v of Object r \<Rightarrow> ret r | _ \<Rightarrow> abrupt (Throw (Val (String ''no object'')))),
      ToString =
        (\<lambda>v st. case v of
                   String s \<Rightarrow> (Inr s, st)
                 | Object r \<Rightarrow>
                     if r = 5 then (Inr ''gregory'', AList.update ''weekday'' (String ''long'') st)
                     else (Inr ''[object Object]'', st)
                 | _ \<Rightarrow> (Inl (Throw (Val (String ''no string''))), st)),
      ToNumber = (\<lambda>v. case v of Number d \<Rightarrow> ret d | _ \<Rightarrow> abrupt (Throw (Val (String ''no number'')))),
      ToBoolean = (\<lambda>v. v = Boolean True),
      OrdinaryCreateFromConstructor = (\<lambda>newTarget. ret 9),
      ArrayProto_map =
        (\<lambda>callbackfn thisValue.
           if thisValue = Object 7 then Q (callbackfn (String ''en-'')) (\<lambda>v. ret [v]) else ret []),
      activeFunctionObject = Object 1,
      Intl_Locale =
        (\<lambda>tag. if tag = ''en-''
               then Some \<lparr>err_name = ''RangeError'', err_message = ''Incorrect locale information provided''\<rparr>
               else None),
      hostDTF =
        (\<lambda>locales options.
           if get_option options ''timeZone'' = HString ''Mars/Phobos''
           then Inl \<lparr>err_name = ''RangeError'', err_message = ''Invalid time zone specified: Mars/Phobos''\<rparr>
           else if get_option options ''calendar'' = HString ''bogus''
           then Inl \<lparr>err_name = ''RangeError'', err_message = ''Invalid calendar: bogus''\<rparr>
           else Inr (locales, options)),
      resolvedOptions_timeZone = (\<lambda>instance. ''UTC''),
      host_less = (\<lambda>x y. False),
      Math_floor = (\<lambda>x. x)\<rparr>"


text \<open>
  The host options the constructor builds when the options object has no property but
  the calendar, the weekday and the year, month and day given here.
\<close>

definition ho_read :: "host_value \<Rightarrow> host_value \<Rightarrow> host_value \<Rightarrow> host_options" where
  "ho_read calendar weekday ymd =
       [(''localeMatcher'', HString ''best fit''),
        (''calendar'', calendar),
        (''numberingSystem'', HUndefined), (''hour12'', HUndefined),
        (''hourCycle'', HUndefined), (''timeZone'', HUndefined),
        (''weekday'', weekday), (''era'', HUndefined),
        (''year'', ymd), (''month'', ymd),
        (''day'', ymd), (''dayPeriod'', HUndefined),
        (''hour'', HUndefined), (''minute'', HUndefined),
        (''second'', HUndefined), (''fractionalSecondDigits'', HUndefined),
        (''timeZoneName'', HUndefined),
        (''formatMatcher'', HString ''best fit''),
        (''dateStyle'', HUndefined), (''timeStyle'', HUndefined)]"

subsection \<open>Comparing the two constructors\<close>

text \<open>
  Both constructors begin in the same way: the new object is made, the locales are
  canonicalized, and the options argument becomes the options object (\<open>ToObject\<close> of the
  argument, or a new object without prototype and properties when it is \<open>undefined\<close>). This
  gives the state in which the reading of the options starts.
\<close>

definition options_at_start ::
  "('st, 'i) env \<Rightarrow> val \<Rightarrow> val \<Rightarrow> val \<Rightarrow> ('st, nat \<times> val list \<times> options_object) guest" where
  "options_at_start E locales options NewTarget =
     Q (OrdinaryCreateFromConstructor E (if NewTarget = Undefined then activeFunctionObject E else NewTarget))
       (\<lambda>dateTimeFormat.
     Q (limitedCanonicalizeLocaleList E locales)
       (\<lambda>requestedLocales.
     Q (CoerceOptionsToObject E options)
       (\<lambda>options. ret (dateTimeFormat, requestedLocales, options))))"

text \<open>
  The properties of the options object that the constructors consult, and the state that
  the conversion of the value \<open>v\<close> of the option \<open>P\<close> leaves: none for \<open>undefined\<close> and for
  \<open>hour12\<close> (\<open>ToBoolean\<close> runs no guest code), \<open>ToNumber\<close> for \<open>fractionalSecondDigits\<close>,
  \<open>ToString\<close> for the others.
\<close>

definition consulted :: "string list" where
  "consulted =
     [''localeMatcher'', ''calendar'', ''numberingSystem'', ''hour12'', ''hourCycle'', ''timeZone'']
     @ map fst DTF_COMPONENTS @ [''formatMatcher'', ''dateStyle'', ''timeStyle'']"

definition conversion_of :: "('st, 'i) env \<Rightarrow> string \<Rightarrow> val \<Rightarrow> 'st \<Rightarrow> 'st" where
  "conversion_of E P v s =
     (if v = Undefined \<or> P = ''hour12'' then s
      else if P = ''fractionalSecondDigits'' then snd (ToNumber E v s)
      else snd (ToString E v s))"

text \<open>
  The states that conversions of the values of the consulted options lead to, from the
  state \<open>s0\<close> in which the reading starts: the values are those the options object \<open>O\<close>
  has in \<open>s0\<close>.
\<close>

inductive converted :: "('st, 'i) env \<Rightarrow> options_object \<Rightarrow> 'st \<Rightarrow> 'st \<Rightarrow> bool"
  for E :: "('st, 'i) env" and O' :: options_object and s0 :: 'st where
  start: "converted E O' s0 s0"
| conversion:
    "converted E O' s0 s \<Longrightarrow> P \<in> set consulted
       \<Longrightarrow> converted E O' s0 (conversion_of E P (Get E s0 O' P) s)"

text \<open>
  The conversions of the options are quiet when, in every state they lead to, the options
  object has the values of the start for the consulted properties, and \<open>ToString\<close> of the
  string \<open>"numeric"\<close> is that string and leaves the state as it is.
\<close>

definition quiet_options :: "('st, 'i) env \<Rightarrow> options_object \<Rightarrow> 'st \<Rightarrow> bool" where
  "quiet_options E O' s0 =
     (\<forall>s. converted E O' s0 s \<longrightarrow>
          (\<forall>P \<in> set consulted. Get E s O' P = Get E s0 O' P)
          \<and> ToString E (String ''numeric'') s = (Inr ''numeric'', s))"

text \<open>
  Two outcomes are the same when they leave the same state and are the same result, or
  the same abrupt completion; for two errors made from the template
  \<open>IncompatibleOptions\<close> the arguments of the template may differ.
\<close>

fun same_completion :: "completion \<Rightarrow> completion \<Rightarrow> bool" where
  "same_completion (Throw (NewError k1 t1 as1)) (Throw (NewError k2 t2 as2)) =
     (k1 = k2 \<and> t1 = t2 \<and> (as1 = as2 \<or> t1 = ''IncompatibleOptions''))"
| "same_completion c1 c2 = (c1 = c2)"

fun same_result :: "completion + 'a \<Rightarrow> completion + 'a \<Rightarrow> bool" where
  "same_result (Inl c1) (Inl c2) = same_completion c1 c2"
| "same_result (Inr x) (Inr y) = (x = y)"
| "same_result _ _ = False"

definition same_outcome :: "(completion + 'a) \<times> 'st \<Rightarrow> (completion + 'a) \<times> 'st \<Rightarrow> bool" where
  "same_outcome x y = (snd x = snd y \<and> same_result (fst x) (fst y))"

text \<open>The host options with \<open>year\<close>, \<open>month\<close> and \<open>day\<close> set to \<open>"numeric"\<close>.\<close>

definition numeric_date :: "host_options \<Rightarrow> host_options" where
  "numeric_date hostOptions =
     map (\<lambda>(k, x). (k, if k \<in> set [''year'', ''month'', ''day''] then HString ''numeric'' else x)) hostOptions"

text \<open>
  The second computation follows the first one: from the same state, it ends abruptly
  with the same completion, or with a result that stands in the given relation to the
  first one's, and in both cases leaves the same state.
\<close>

definition follows_guest ::
  "('a \<Rightarrow> 'b \<Rightarrow> bool) \<Rightarrow> ('st, 'a) guest \<Rightarrow> ('st, 'b) guest \<Rightarrow> 'st \<Rightarrow> bool" where
  "follows_guest R m1 m2 st =
     (case m1 st of
        (Inl c, st') \<Rightarrow> m2 st = (Inl c, st')
      | (Inr x, st') \<Rightarrow> (\<exists>y. m2 st = (Inr y, st') \<and> R x y))"

section \<open>Properties\<close>

subsection \<open>Equality\<close>

lemma not_NaN_zeros [simp]: "\<not> isNaN pos_zero" "\<not> isNaN neg_zero"
  by (simp_all add: isNaN_def pos_zero_def neg_zero_def)

lemma zeros_distinct [simp]: "neg_zero \<noteq> pos_zero" "pos_zero \<noteq> neg_zero"
  by (simp_all add: pos_zero_def neg_zero_def)

lemma SameValueZero_refl [simp]: "SameValueZero x x = Boolean True"
  by (cases x) (auto simp: SameValueZero_def SameValue_def number_equal_def)

lemma SameValueZero_sym: "SameValueZero x y = SameValueZero y x"
  by (cases x; cases y) (auto simp: SameValueZero_def SameValue_def number_equal_def)

lemma SameValueZero_trans:
  "SameValueZero x y = Boolean True \<Longrightarrow> SameValueZero y z = Boolean True \<Longrightarrow> SameValueZero x z = Boolean True"
  by (cases x; cases y; cases z) (auto simp: SameValueZero_def SameValue_def number_equal_def)

lemma SameValueZero_zeros [simp]:
  "SameValueZero (Number neg_zero) (Number pos_zero) = Boolean True"
  "SameValueZero (Number pos_zero) (Number neg_zero) = Boolean True"
  by (simp_all add: SameValueZero_def number_equal_def)

lemma SameValueZero_neg_zero_right [simp]:
  "SameValueZero x (Number neg_zero) = SameValueZero x (Number pos_zero)"
  by (cases x) (auto simp: SameValueZero_def SameValue_def number_equal_def)

lemma scan_iff: "scan es v \<longleftrightarrow> (\<exists>x. Some x \<in> set es \<and> SameValueZero x v = Boolean True)"
  by (induction es) (auto split: option.splits)

lemma scan_append: "scan (es @ fs) v \<longleftrightarrow> scan es v \<or> scan fs v"
  by (auto simp: scan_iff)

lemma scan_neg_zero [simp]: "scan es (Number neg_zero) = scan es (Number pos_zero)"
  by (simp add: scan_iff)

subsection \<open>clear\<close>

lemma clear_loop_eq: "i \<le> length es \<Longrightarrow> clear_loop es i = take i es @ replicate (length es - i) None"
proof (induction es i rule: clear_loop.induct)
  case (1 es i)
  show ?case
  proof (cases "i < length es")
    case True
    have "clear_loop es i = clear_loop (es[i := None]) (i + 1)"
      using True by (subst clear_loop.simps) simp
    also have "\<dots> = take (i + 1) (es[i := None]) @ replicate (length es - (i + 1)) None"
      using 1 True by simp
    also have "\<dots> = take i es @ replicate (length es - i) None"
      using True by (simp add: take_Suc_conv_app_nth replicate_app_Cons_same Suc_diff_Suc flip: replicate_Suc)
    finally show ?thesis .
  next
    case False
    with 1 show ?thesis by (subst clear_loop.simps) simp
  qed
qed

lemma clear_loop_0: "clear_loop es 0 = replicate (length es) None"
  by (simp add: clear_loop_eq)

lemma count_loop_acc: "count_loop es c = c + length (filter (\<lambda>e. e \<noteq> None) es)"
  by (induction es arbitrary: c) auto

lemma count_loop_holes: "count_loop (replicate n None) c = c"
  by (simp add: count_loop_acc)

lemma RequireInternalSlot_ok:
  "slot_SetData w S = Some a \<Longrightarrow> RequireInternalSlot w S ''SetData'' = Normal Undefined"
  by (simp add: RequireInternalSlot_def)

lemma slot_SetData_arrays_update [simp]:
  "slot_SetData (w\<lparr>arrays := f\<rparr>) S = slot_SetData w S"
  by (simp add: slot_SetData_def split: val.splits)

text \<open>
  C10. On a receiver with the \<open>SetData\<close> slot, \<open>clear\<close> returns \<open>undefined\<close> and leaves
  a store that differs only in the receiver's array, where every slot is a hole; the
  array keeps its length, and the size getter then returns 0.
\<close>

theorem SetProto_clear_holes:
  assumes "slot_SetData w S = Some a"
  shows "SetProto_clear S w =
           (Normal Undefined, w\<lparr>arrays := (arrays w)(a := replicate (length (arrays w a)) None)\<rparr>)
         \<and> length (arrays (snd (SetProto_clear S w)) a) = length (arrays w a)
         \<and> SetProto_sizeGetter S (snd (SetProto_clear S w)) = (Count 0, snd (SetProto_clear S w))"
proof -
  have c: "SetProto_clear S w =
           (Normal Undefined, w\<lparr>arrays := (arrays w)(a := replicate (length (arrays w a)) None)\<rparr>)"
    using assms by (simp add: SetProto_clear_def RequireInternalSlot_ok clear_loop_0)
  have s: "SetProto_sizeGetter S (w\<lparr>arrays := (arrays w)(a := replicate (length (arrays w a)) None)\<rparr>)
           = (Count 0, w\<lparr>arrays := (arrays w)(a := replicate (length (arrays w a)) None)\<rparr>)"
    using assms by (simp add: SetProto_sizeGetter_def RequireInternalSlot_ok count_loop_holes)
  show ?thesis using s by (simp add: c)
qed

theorem SetProto_clear_holes_witness:
  "slot_SetData w_demo (Object 0) = Some 0
   \<and> (SetProto_clear (Object 0) w_demo =
       (Normal Undefined, w_demo\<lparr>arrays := (arrays w_demo)(0 := replicate (length (arrays w_demo 0)) None)\<rparr>)
   \<and> length (arrays (snd (SetProto_clear (Object 0) w_demo)) 0) = length (arrays w_demo 0)
   \<and> SetProto_sizeGetter (Object 0) (snd (SetProto_clear (Object 0) w_demo))
       = (Count 0, snd (SetProto_clear (Object 0) w_demo)))"
proof -
  have h: "slot_SetData w_demo (Object 0) = Some 0"
    by (simp add: slot_SetData_def w_demo_def)
  show ?thesis
    using h SetProto_clear_holes [OF h] by (rule conjI)
qed

subsection \<open>add, delete and the reachable stores\<close>

lemma SetProto_add_eq:
  assumes "slot_SetData w S = Some a"
  shows "SetProto_add v S w =
           (Normal S,
            if scan (arrays w a) v then w
            else w\<lparr>arrays := (arrays w)(a := arrays w a @ [Some (if v = Number neg_zero then Number pos_zero else v)])\<rparr>)"
  using assms
  by (cases v) (auto simp: SetProto_add_def RequireInternalSlot_ok F_def Let_def)

lemma SetProto_add_no_slot:
  assumes "slot_SetData w S = None"
  shows "SetProto_add v S w = (Throw (NewError ''TypeError'' ''InternalSlotMissing'' [V S, H ''SetData'']), w)"
  using assms by (simp add: SetProto_add_def RequireInternalSlot_def surroundingAgent_Throw_def)

lemma scan_canonical:
  "scan es (if v = Number neg_zero then Number pos_zero else v) = scan es v"
  by simp

lemma SameValueZero_canonical:
  "SameValueZero (if v = Number neg_zero then Number pos_zero else v) v = Boolean True"
  by simp

lemma scan_after_append:
  "scan (es @ [Some (if v = Number neg_zero then Number pos_zero else v)]) v"
  by (simp add: scan_append)

lemma SetProto_add_idem:
  assumes "slot_SetData w S = Some a"
  shows "SetProto_add v S (snd (SetProto_add v S w)) = (Normal S, snd (SetProto_add v S w))"
proof (cases "scan (arrays w a) v")
  case True
  then show ?thesis using assms by (simp add: SetProto_add_eq)
next
  case False
  let ?w' = "w\<lparr>arrays := (arrays w)(a := arrays w a @ [Some (if v = Number neg_zero then Number pos_zero else v)])\<rparr>"
  have 1: "SetProto_add v S w = (Normal S, ?w')"
    using assms False by (simp add: SetProto_add_eq)
  have 2: "slot_SetData ?w' S = Some a" using assms by simp
  have 3: "scan (arrays ?w' a) v" using scan_after_append by simp
  show ?thesis unfolding 1 snd_conv using SetProto_add_eq [OF 2, of v] 3 by simp
qed

lemma no_duplicatesI:
  assumes "\<And>i j x y. i < j \<Longrightarrow> j < length es \<Longrightarrow> es ! i = Some x \<Longrightarrow> es ! j = Some y \<Longrightarrow>
             SameValueZero x y \<noteq> Boolean True"
  shows "no_duplicates es"
  using assms by (auto simp: no_duplicates_def split: option.splits)

lemma no_duplicatesD:
  assumes "no_duplicates es" "i < j" "j < length es" "es ! i = Some x" "es ! j = Some y"
  shows "SameValueZero x y \<noteq> Boolean True"
  using assms by (fastforce simp: no_duplicates_def split: option.splits)

lemma no_duplicates_Nil [simp]: "no_duplicates []"
  by (simp add: no_duplicates_def)

lemma no_duplicates_replicate [simp]: "no_duplicates (replicate n None)"
  by (rule no_duplicatesI) simp

lemma no_duplicates_hole:
  assumes "no_duplicates es"
  shows "no_duplicates (es[k := None])"
proof (rule no_duplicatesI)
  fix i j x y
  assume h: "i < j" "j < length (es[k := None])" "es[k := None] ! i = Some x" "es[k := None] ! j = Some y"
  then have "i \<noteq> k" "j \<noteq> k" by (auto simp: nth_list_update split: if_splits)
  with h have "es ! i = Some x" "es ! j = Some y" "j < length es" by simp_all
  with assms h(1) show "SameValueZero x y \<noteq> Boolean True" by (blast dest: no_duplicatesD)
qed

lemma no_duplicates_append:
  assumes "no_duplicates es" "\<not> scan es v"
  shows "no_duplicates (es @ [Some (if v = Number neg_zero then Number pos_zero else v)])"
proof (rule no_duplicatesI)
  let ?c = "if v = Number neg_zero then Number pos_zero else v"
  fix i j x y
  assume h: "i < j" "j < length (es @ [Some ?c])" "(es @ [Some ?c]) ! i = Some x" "(es @ [Some ?c]) ! j = Some y"
  show "SameValueZero x y \<noteq> Boolean True"
  proof (cases "j < length es")
    case True
    with h have "es ! i = Some x" "es ! j = Some y" by (simp_all add: nth_append)
    with assms(1) h(1) True show ?thesis by (blast dest: no_duplicatesD)
  next
    case False
    with h have j: "j = length es" by simp
    with h have y: "y = ?c" and x: "es ! i = Some x" and i: "i < length es" by (simp_all add: nth_append)
    from x i have "Some x \<in> set es" by (metis nth_mem)
    with assms(2) have n: "SameValueZero x v \<noteq> Boolean True" by (auto simp: scan_iff)
    show ?thesis
    proof
      assume "SameValueZero x y = Boolean True"
      moreover have "SameValueZero y v = Boolean True" unfolding y by (rule SameValueZero_canonical)
      ultimately have "SameValueZero x v = Boolean True" by (rule SameValueZero_trans)
      with n show False by simp
    qed
  qed
qed


lemma delete_loop_miss:
  assumes "\<forall>j. i \<le> j \<and> j < length es \<longrightarrow> (case es ! j of None \<Rightarrow> True | Some x \<Rightarrow> SameValueZero x v \<noteq> Boolean True)"
  shows "delete_loop es v i = (es, Boolean False)"
  using assms
proof (induction es v i rule: delete_loop.induct)
  case (1 es v i)
  show ?case
  proof (cases "i < length es")
    case True
    with "1.prems" have m: "case es ! i of None \<Rightarrow> True | Some x \<Rightarrow> SameValueZero x v \<noteq> Boolean True"
      by simp
    have r: "delete_loop es v (i + 1) = (es, Boolean False)"
    proof (cases "es ! i")
      case None
      with True "1.prems" show ?thesis by (intro "1.IH"(1)) auto
    next
      case (Some x)
      with m have "SameValueZero x v \<noteq> Boolean True" by simp
      with True Some "1.prems" show ?thesis by (intro "1.IH"(2)) auto
    qed
    show ?thesis
      using True m r by (subst delete_loop.simps) (auto split: option.splits)
  next
    case False
    then show ?thesis by (subst delete_loop.simps) simp
  qed
qed

lemma delete_loop_hit:
  assumes "i \<le> k" "k < length es" "es ! k = Some e" "SameValueZero e v = Boolean True"
    and "\<forall>j. i \<le> j \<and> j < k \<longrightarrow> (case es ! j of None \<Rightarrow> True | Some x \<Rightarrow> SameValueZero x v \<noteq> Boolean True)"
  shows "delete_loop es v i = (es[k := None], Boolean True)"
  using assms
proof (induction es v i rule: delete_loop.induct)
  case (1 es v i)
  from "1.prems" have il: "i < length es" by simp
  show ?case
  proof (cases "i = k")
    case True
    with "1.prems" show ?thesis by (subst delete_loop.simps) simp
  next
    case False
    with "1.prems" have lt: "i < k" by simp
    with "1.prems" have m: "case es ! i of None \<Rightarrow> True | Some x \<Rightarrow> SameValueZero x v \<noteq> Boolean True"
      by simp
    have r: "delete_loop es v (i + 1) = (es[k := None], Boolean True)"
    proof (cases "es ! i")
      case None
      with il lt "1.prems" show ?thesis by (intro "1.IH"(1)) auto
    next
      case (Some x)
      with m have "SameValueZero x v \<noteq> Boolean True" by simp
      with il lt Some "1.prems" show ?thesis by (intro "1.IH"(2)) auto
    qed
    show ?thesis
      using il m r by (subst delete_loop.simps) (auto split: option.splits)
  qed
qed

lemma delete_loop_cases:
  "delete_loop es v i = (es, Boolean False) \<or> (\<exists>k<length es. delete_loop es v i = (es[k := None], Boolean True))"
proof (induction es v i rule: delete_loop.induct)
  case (1 es v i)
  show ?case
  proof (cases "i < length es")
    case True
    show ?thesis
    proof (cases "es ! i")
      case None
      then have "delete_loop es v i = delete_loop es v (i + 1)"
        using True by (subst delete_loop.simps) simp
      with "1.IH"(1) [OF True None] show ?thesis by simp
    next
      case (Some x)
      show ?thesis
      proof (cases "SameValueZero x v = Boolean True")
        case t: True
        have "delete_loop es v i = (es[i := None], Boolean True)"
          using True Some t by (subst delete_loop.simps) simp
        with True show ?thesis by blast
      next
        case f: False
        have "delete_loop es v i = delete_loop es v (i + 1)"
          using True Some f by (subst delete_loop.simps) simp
        with "1.IH"(2) [OF True Some f] show ?thesis by simp
      qed
    qed
  next
    case False
    then show ?thesis by (subst delete_loop.simps) simp
  qed
qed

lemma SetProto_delete_eq:
  assumes "slot_SetData w S = Some a"
  shows "SetProto_delete v S w =
           (Normal (snd (delete_loop (arrays w a) v 0)),
            w\<lparr>arrays := (arrays w)(a := fst (delete_loop (arrays w a) v 0))\<rparr>)"
  using assms by (simp add: SetProto_delete_def RequireInternalSlot_ok split: prod.splits)

lemma SetProto_delete_no_slot:
  assumes "slot_SetData w S = None"
  shows "SetProto_delete v S w = (Throw (NewError ''TypeError'' ''InternalSlotMissing'' [V S, H ''SetData'']), w)"
  using assms by (simp add: SetProto_delete_def RequireInternalSlot_def surroundingAgent_Throw_def)

lemma SetProto_clear_eq:
  assumes "slot_SetData w S = Some a"
  shows "SetProto_clear S w =
           (Normal Undefined, w\<lparr>arrays := (arrays w)(a := replicate (length (arrays w a)) None)\<rparr>)"
  using assms by (simp add: SetProto_clear_def RequireInternalSlot_ok clear_loop_0)

lemma SetProto_clear_no_slot:
  assumes "slot_SetData w S = None"
  shows "SetProto_clear S w = (Throw (NewError ''TypeError'' ''InternalSlotMissing'' [V S, H ''SetData'']), w)"
  using assms by (simp add: SetProto_clear_def RequireInternalSlot_def surroundingAgent_Throw_def)

text \<open>What a method leaves of the arrays of the store.\<close>

lemma SetProto_add_arrays:
  "\<exists>f. snd (SetProto_add v S' w) = w\<lparr>arrays := f\<rparr> \<and>
       (\<forall>a. f a = arrays w a \<or>
            \<not> scan (arrays w a) v \<and>
            f a = arrays w a @ [Some (if v = Number neg_zero then Number pos_zero else v)])"
proof (cases "slot_SetData w S'")
  case None
  then have "snd (SetProto_add v S' w) = w\<lparr>arrays := arrays w\<rparr>" by (simp add: SetProto_add_no_slot)
  then show ?thesis by blast
next
  case (Some a')
  show ?thesis
  proof (cases "scan (arrays w a') v")
    case True
    with Some have "snd (SetProto_add v S' w) = w\<lparr>arrays := arrays w\<rparr>" by (simp add: SetProto_add_eq)
    then show ?thesis by blast
  next
    case False
    with Some show ?thesis
      by (intro exI [of _ "(arrays w)(a' := arrays w a' @ [Some (if v = Number neg_zero then Number pos_zero else v)])"])
        (auto simp: SetProto_add_eq)
  qed
qed

lemma SetProto_clear_arrays:
  "\<exists>f. snd (SetProto_clear S' w) = w\<lparr>arrays := f\<rparr> \<and>
       (\<forall>a. f a = arrays w a \<or> f a = replicate (length (arrays w a)) None)"
proof (cases "slot_SetData w S'")
  case None
  then have "snd (SetProto_clear S' w) = w\<lparr>arrays := arrays w\<rparr>" by (simp add: SetProto_clear_no_slot)
  then show ?thesis by blast
next
  case (Some a')
  then show ?thesis
    by (intro exI [of _ "(arrays w)(a' := replicate (length (arrays w a')) None)"])
      (simp add: SetProto_clear_eq)
qed

lemma SetProto_delete_arrays:
  "\<exists>f. snd (SetProto_delete v S' w) = w\<lparr>arrays := f\<rparr> \<and>
       (\<forall>a. f a = arrays w a \<or> (\<exists>k. f a = (arrays w a)[k := None]))"
proof (cases "slot_SetData w S'")
  case None
  then have "snd (SetProto_delete v S' w) = w\<lparr>arrays := arrays w\<rparr>" by (simp add: SetProto_delete_no_slot)
  then show ?thesis by blast
next
  case (Some a')
  have "fst (delete_loop (arrays w a') v 0) = arrays w a' \<or>
        (\<exists>k. fst (delete_loop (arrays w a') v 0) = (arrays w a')[k := None])"
    using delete_loop_cases [of "arrays w a'" v 0] by auto
  with Some show ?thesis
    by (intro exI [of _ "(arrays w)(a' := fst (delete_loop (arrays w a') v 0))"])
      (auto simp: SetProto_delete_eq)
qed

lemma reachable_no_duplicates:
  assumes "reachable S w"
  shows "\<exists>a. slot_SetData w S = Some a \<and> no_duplicates (arrays w a)"
  using assms
proof (induction rule: reachable.induct)
  case (created w a)
  then show ?case by simp
next
  case (add w v S')
  then obtain a where a: "slot_SetData w S = Some a" "no_duplicates (arrays w a)" by blast
  obtain f where f: "snd (SetProto_add v S' w) = w\<lparr>arrays := f\<rparr>"
    "f a = arrays w a \<or> \<not> scan (arrays w a) v \<and>
       f a = arrays w a @ [Some (if v = Number neg_zero then Number pos_zero else v)]"
    using SetProto_add_arrays [of v S' w] by blast
  from f(2) a(2) have "no_duplicates (f a)" by (metis no_duplicates_append)
  with a(1) f(1) show ?case by simp
next
  case (clear w S')
  then obtain a where a: "slot_SetData w S = Some a" "no_duplicates (arrays w a)" by blast
  obtain f where f: "snd (SetProto_clear S' w) = w\<lparr>arrays := f\<rparr>"
    "f a = arrays w a \<or> f a = replicate (length (arrays w a)) None"
    using SetProto_clear_arrays [of S' w] by blast
  from f(2) a(2) have "no_duplicates (f a)" by auto
  with a(1) f(1) show ?case by simp
next
  case (delete w v S')
  then obtain a where a: "slot_SetData w S = Some a" "no_duplicates (arrays w a)" by blast
  obtain f where f: "snd (SetProto_delete v S' w) = w\<lparr>arrays := f\<rparr>"
    "f a = arrays w a \<or> (\<exists>k. f a = (arrays w a)[k := None])"
    using SetProto_delete_arrays [of v S' w] by blast
  from f(2) a(2) have "no_duplicates (f a)" by (auto intro: no_duplicates_hole)
  with a(1) f(1) show ?case by simp
next
  case (other w a w')
  then show ?case by auto
qed

lemma SetProto_has_eq:
  assumes "slot_SetData w S = Some a"
  shows "SetProto_has v S w = (Normal (Boolean (scan (arrays w a) v)), w)"
  using assms by (simp add: SetProto_has_def RequireInternalSlot_ok)

lemma SetProto_sizeGetter_eq:
  assumes "slot_SetData w S = Some a"
  shows "SetProto_sizeGetter S w = (Count (length (filter (\<lambda>e. e \<noteq> None) (arrays w a))), w)"
  using assms by (simp add: SetProto_sizeGetter_def RequireInternalSlot_ok count_loop_acc)

text \<open>
  C5. On a receiver with the \<open>SetData\<close> slot, \<open>add\<close> returns the receiver and appends the
  value (with \<open>-0\<close> turned into \<open>+0\<close>) only when no slot holds an element that is
  SameValueZero-equal to it, and leaves the store as it is otherwise; a second \<open>add\<close> of
  the same value changes nothing and returns the receiver; and in every store the Set
  can reach, no two slots of its array hold SameValueZero-equal elements.
\<close>

theorem SetProto_add_no_duplicates:
  assumes "slot_SetData w S = Some a"
  shows "SetProto_add v S w =
           (Normal S,
            if (\<exists>x. Some x \<in> set (arrays w a) \<and> SameValueZero x v = Boolean True) then w
            else w\<lparr>arrays := (arrays w)
                   (a := arrays w a @ [Some (if v = Number neg_zero then Number pos_zero else v)])\<rparr>)
         \<and> SetProto_add v S (snd (SetProto_add v S w)) = (Normal S, snd (SetProto_add v S w))
         \<and> (reachable S w \<longrightarrow> no_duplicates (arrays w a))"
proof (intro conjI impI)
  show "SetProto_add v S w =
           (Normal S,
            if (\<exists>x. Some x \<in> set (arrays w a) \<and> SameValueZero x v = Boolean True) then w
            else w\<lparr>arrays := (arrays w)
                   (a := arrays w a @ [Some (if v = Number neg_zero then Number pos_zero else v)])\<rparr>)"
    unfolding SetProto_add_eq [OF assms] scan_iff ..
  show "SetProto_add v S (snd (SetProto_add v S w)) = (Normal S, snd (SetProto_add v S w))"
    using assms by (rule SetProto_add_idem)
  assume "reachable S w"
  then show "no_duplicates (arrays w a)"
    using reachable_no_duplicates [of S w] assms by auto
qed

lemma w_new_slot: "slot_SetData w_new (Object 0) = Some 0"
  by (simp add: w_new_def slot_SetData_def)

theorem SetProto_add_no_duplicates_witness:
  "slot_SetData (snd (SetProto_add (Number neg_zero) (Object 0) w_new)) (Object 0) = Some 0
   \<and> reachable (Object 0) (snd (SetProto_add (Number neg_zero) (Object 0) w_new))
   \<and> arrays (snd (SetProto_add (Number neg_zero) (Object 0) w_new)) 0 = [Some (Number pos_zero)]
   \<and> SetProto_add (Number pos_zero) (Object 0) (snd (SetProto_add (Number neg_zero) (Object 0) w_new))
       = (Normal (Object 0), snd (SetProto_add (Number neg_zero) (Object 0) w_new))
   \<and> no_duplicates (arrays (snd (SetProto_add (Number neg_zero) (Object 0) w_new)) 0)"
proof -
  let ?w = "snd (SetProto_add (Number neg_zero) (Object 0) w_new)"
  have e: "?w = w_new\<lparr>arrays := (arrays w_new)(0 := [Some (Number pos_zero)])\<rparr>"
    by (simp add: SetProto_add_eq [OF w_new_slot]) (simp add: w_new_def)
  have s: "slot_SetData ?w (Object 0) = Some 0"
    by (simp add: e w_new_slot)
  have r: "reachable (Object 0) ?w"
    by (rule reachable.add, rule reachable.created [OF w_new_slot]) (simp add: w_new_def)
  have a: "arrays ?w 0 = [Some (Number pos_zero)]"
    by (simp add: e)
  from SetProto_add_no_duplicates [OF s, of "Number pos_zero"] r a s
  show ?thesis by simp
qed

subsection \<open>forEach\<close>

lemma forEach_loop_next:
  assumes "forEach_next Call f t S a cfg cfg'"
  shows "forEach_loop Call f t S a cfg = forEach_loop Call f t S a cfg'"
  using assms by (subst forEach_loop.simps) (simp add: forEach_next_def)

lemma forEach_loop_reaches:
  assumes "rtranclp (forEach_next Call f t S a) cfg cfg'"
  shows "forEach_loop Call f t S a cfg = forEach_loop Call f t S a cfg'"
  using assms by (induction rule: rtranclp_induct) (simp_all add: forEach_loop_next)

lemma forEach_loop_stop:
  assumes "forEach_step Call f t S a cfg = Inr out"
  shows "forEach_loop Call f t S a cfg = Some out"
  using assms by (subst forEach_loop.simps) simp

lemma forEach_step_abrupt:
  assumes "i < length (arrays w a)" "arrays w a ! i = Some e"
    and "Call f t [e, e, S] w = (c, w')" "is_abrupt c"
  shows "forEach_step Call f t S a (w, i, log) = Inr (c, w', log @ [Called i e w])"
  using assms by (cases c) (simp_all add: forEach_step_def is_abrupt_def)

lemma forEach_step_normal:
  assumes "i < length (arrays w a)" "arrays w a ! i = Some e"
    and "Call f t [e, e, S] w = (c, w')" "\<not> is_abrupt c"
  shows "forEach_step Call f t S a (w, i, log) = Inl (w', i + 1, log @ [Called i e w])"
  using assms by (cases c) (simp_all add: forEach_step_def is_abrupt_def)

lemma forEach_step_hole:
  assumes "i < length (arrays w a)" "arrays w a ! i = None"
  shows "forEach_step Call f t S a (w, i, log) = Inl (w, i + 1, log @ [Skipped i w])"
  using assms by (simp add: forEach_step_def)

lemma forEach_step_end:
  assumes "\<not> i < length (arrays w a)"
  shows "forEach_step Call f t S a (w, i, log) = Inr (Normal Undefined, w, log)"
  using assms by (simp add: forEach_step_def)

lemma SetProto_forEach_eq:
  assumes "slot_SetData w S = Some a" "IsCallable f \<noteq> Boolean False"
  shows "SetProto_forEach Call IsCallable f t S w = forEach_loop Call f t S a (w, 0, [])"
  using assms by (simp add: SetProto_forEach_def RequireInternalSlot_ok)

text \<open>
  C1. Wherever a run of \<open>forEach\<close> on a receiver with the \<open>SetData\<close> slot has come to
  (any configuration the start reaches), when the callback is called there and returns an
  abrupt completion, \<open>forEach\<close> returns that very completion, with the store as the
  callback left it, and the log ends with that call: no call follows it.
\<close>

theorem SetProto_forEach_abrupt:
  assumes "slot_SetData w0 S = Some a" and "IsCallable f \<noteq> Boolean False"
    and "rtranclp (forEach_next Call f t S a) (w0, 0, []) (w, i, log)"
    and "i < length (arrays w a)" and "arrays w a ! i = Some e"
    and "Call f t [e, e, S] w = (c, w')" and "is_abrupt c"
  shows "SetProto_forEach Call IsCallable f t S w0 = Some (c, w', log @ [Called i e w])"
proof -
  have "SetProto_forEach Call IsCallable f t S w0 = forEach_loop Call f t S a (w0, 0, [])"
    using assms(1,2) by (rule SetProto_forEach_eq)
  also have "\<dots> = forEach_loop Call f t S a (w, i, log)"
    using assms(3) by (rule forEach_loop_reaches)
  also have "\<dots> = Some (c, w', log @ [Called i e w])"
    using assms(4-7) by (intro forEach_loop_stop forEach_step_abrupt)
  finally show ?thesis .
qed

lemma forEach_loop_Some_reaches:
  assumes "forEach_loop Call f t S a cfg = Some out"
  shows "\<exists>cfg'. rtranclp (forEach_next Call f t S a) cfg cfg' \<and> forEach_step Call f t S a cfg' = Inr out"
proof (rule forEach_loop.raw_induct [where P = "\<lambda>Call f t S a cfg out.
    \<exists>cfg'. rtranclp (forEach_next Call f t S a) cfg cfg' \<and> forEach_step Call f t S a cfg' = Inr out",
    OF _ assms])
  fix loop :: "'a call \<Rightarrow> val \<Rightarrow> val \<Rightarrow> val \<Rightarrow> nat \<Rightarrow> 'a config \<Rightarrow> 'a outcome option"
  fix Call :: "'a call" and f t S a and cfg :: "'a config" and out :: "'a outcome"
  assume IH: "\<And>Call f t S a cfg out. loop Call f t S a cfg = Some out \<Longrightarrow>
    \<exists>cfg'. rtranclp (forEach_next Call f t S a) cfg cfg' \<and> forEach_step Call f t S a cfg' = Inr out"
  assume eq: "(case forEach_step Call f t S a cfg of Inl cfg' \<Rightarrow> loop Call f t S a cfg' | Inr out \<Rightarrow> Some out) = Some out"
  show "\<exists>cfg'. rtranclp (forEach_next Call f t S a) cfg cfg' \<and> forEach_step Call f t S a cfg' = Inr out"
  proof (cases "forEach_step Call f t S a cfg")
    case (Inl cfg1)
    with eq have "loop Call f t S a cfg1 = Some out" by simp
    from IH [OF this] obtain cfg' where r: "rtranclp (forEach_next Call f t S a) cfg1 cfg'"
      and s: "forEach_step Call f t S a cfg' = Inr out" by (elim exE conjE)
    from Inl have "forEach_next Call f t S a cfg cfg1" by (simp add: forEach_next_def)
    from this r have "rtranclp (forEach_next Call f t S a) cfg cfg'" by (rule converse_rtranclp_into_rtranclp)
    with s show ?thesis by (intro exI conjI)
  next
    case (Inr out')
    with eq have "out' = out" by simp
    with Inr have "forEach_step Call f t S a cfg = Inr out" by simp
    moreover have "rtranclp (forEach_next Call f t S a) cfg cfg" by (rule rtranclp.rtrancl_refl)
    ultimately show ?thesis by (intro exI conjI)
  qed
qed


lemma forEach_step_Inl_cases:
  assumes "forEach_step Call f t S a (w, i, log) = Inl cfg'"
  shows "\<exists>ev. event_index ev = i \<and> event_store ev = w \<and> event_ok a ev \<and>
              cfg' = (store_after Call f t S ev, i + 1, log @ [ev])"
proof (cases "i < length (arrays w a)")
  case True
  show ?thesis
  proof (cases "arrays w a ! i")
    case None
    with True assms have "cfg' = (w, i + 1, log @ [Skipped i w])"
      by (simp add: forEach_step_hole)
    with True None show ?thesis by (intro exI [of _ "Skipped i w"]) simp
  next
    case (Some e)
    obtain c w' where c: "Call f t [e, e, S] w = (c, w')" by (cases "Call f t [e, e, S] w")
    show ?thesis
    proof (cases "is_abrupt c")
      case True
      with \<open>i < length (arrays w a)\<close> Some c assms show ?thesis by (simp add: forEach_step_abrupt)
    next
      case False
      with True Some c assms have "cfg' = (w', i + 1, log @ [Called i e w])"
        by (simp add: forEach_step_normal)
      with True Some c show ?thesis by (intro exI [of _ "Called i e w"]) simp
    qed
  qed
next
  case False
  with assms show ?thesis by (simp add: forEach_step_end)
qed

lemma forEach_step_Inr_cases:
  assumes "forEach_step Call f t S a (w, i, log) = Inr out"
  shows "\<not> i < length (arrays w a) \<and> out = (Normal Undefined, w, log) \<or>
         (\<exists>e. i < length (arrays w a) \<and> arrays w a ! i = Some e \<and>
              is_abrupt (fst (Call f t [e, e, S] w)) \<and>
              out = (fst (Call f t [e, e, S] w), snd (Call f t [e, e, S] w), log @ [Called i e w]))"
proof (cases "i < length (arrays w a)")
  case True
  show ?thesis
  proof (cases "arrays w a ! i")
    case None
    with True assms show ?thesis by (simp add: forEach_step_hole)
  next
    case (Some e)
    obtain c w' where c: "Call f t [e, e, S] w = (c, w')" by (cases "Call f t [e, e, S] w")
    show ?thesis
    proof (cases "is_abrupt c")
      case a: True
      with True Some c assms have "out = (c, w', log @ [Called i e w])"
        by (simp add: forEach_step_abrupt)
      with True Some c a show ?thesis by simp
    next
      case False
      with True Some c assms show ?thesis by (simp add: forEach_step_normal)
    qed
  qed
next
  case False
  with assms show ?thesis by (simp add: forEach_step_end)
qed

lemma follows_append:
  assumes "follows Call f t S w0 log w" "event_store ev = w"
  shows "follows Call f t S w0 (log @ [ev]) (store_after Call f t S ev)"
  using assms by (induction log arbitrary: w0) auto

lemma visited_append: "visited (xs @ ys) = visited xs @ visited ys"
  by (induction xs rule: visited.induct) auto

lemma forEach_reaches_inv:
  assumes "rtranclp (forEach_next Call f t S a) (w0, 0, []) cfg"
  shows "case cfg of (w, i, log) \<Rightarrow>
           map event_index log = [0..<i] \<and> (\<forall>ev\<in>set log. event_ok a ev) \<and> follows Call f t S w0 log w"
  using assms
proof (induction rule: rtranclp_induct)
  case base
  show ?case by simp
next
  case (step cfg cfg')
  obtain w i log where cfg: "cfg = (w, i, log)" by (cases cfg)
  from step.IH cfg have inv: "map event_index log = [0..<i]" "\<forall>ev\<in>set log. event_ok a ev"
    "follows Call f t S w0 log w" by simp_all
  from step.hyps(2) cfg have "forEach_step Call f t S a (w, i, log) = Inl cfg'"
    by (simp add: forEach_next_def)
  then obtain ev where ev: "event_index ev = i" "event_store ev = w" "event_ok a ev"
    "cfg' = (store_after Call f t S ev, i + 1, log @ [ev])"
    using forEach_step_Inl_cases by blast
  from inv(3) ev(2) have "follows Call f t S w0 (log @ [ev]) (store_after Call f t S ev)"
    by (rule follows_append)
  with inv ev show ?case by simp
qed

lemma forEach_loop_log:
  assumes "forEach_loop Call f t S a (w0, 0, []) = Some (c, w', log)"
  shows "map event_index log = [0..<length log]"
    and "\<forall>ev\<in>set log. event_ok a ev"
    and "follows Call f t S w0 log w'"
    and "\<not> is_abrupt c \<Longrightarrow> c = Normal Undefined \<and> length (arrays w' a) \<le> length log"
proof -
  from forEach_loop_Some_reaches [OF assms] obtain cfg where
    r: "rtranclp (forEach_next Call f t S a) (w0, 0, []) cfg" and
    s: "forEach_step Call f t S a cfg = Inr (c, w', log)" by (elim exE conjE)
  obtain w i l where cfg: "cfg = (w, i, l)" by (cases cfg)
  from forEach_reaches_inv [OF r] cfg have inv: "map event_index l = [0..<i]"
    "\<forall>ev\<in>set l. event_ok a ev" "follows Call f t S w0 l w" by simp_all
  from inv(1) have len: "length l = i" by (metis length_map length_upt minus_nat.diff_0)
  from s cfg forEach_step_Inr_cases [of Call f t S a w i l "(c, w', log)"]
  consider (fin) "\<not> i < length (arrays w a)" "c = Normal Undefined" "w' = w" "log = l"
    | (abr) e where "i < length (arrays w a)" "arrays w a ! i = Some e"
        "is_abrupt c" "c = fst (Call f t [e, e, S] w)" "w' = snd (Call f t [e, e, S] w)"
        "log = l @ [Called i e w]"
    by auto
  then have "map event_index log = [0..<length log] \<and> (\<forall>ev\<in>set log. event_ok a ev) \<and>
    follows Call f t S w0 log w' \<and>
    (\<not> is_abrupt c \<longrightarrow> c = Normal Undefined \<and> length (arrays w' a) \<le> length log)"
  proof cases
    case fin
    with inv len show ?thesis by simp
  next
    case abr
    have "follows Call f t S w0 (l @ [Called i e w]) (store_after Call f t S (Called i e w))"
      using inv(3) by (rule follows_append) simp
    with abr inv len show ?thesis by simp
  qed
  then show "map event_index log = [0..<length log]"
    and "\<forall>ev\<in>set log. event_ok a ev"
    and "follows Call f t S w0 log w'"
    and "\<not> is_abrupt c \<Longrightarrow> c = Normal Undefined \<and> length (arrays w' a) \<le> length log"
    by simp_all
qed

lemma live_from_drop:
  assumes "i < length es"
  shows "live_from i (drop i es) =
           (case es ! i of None \<Rightarrow> [] | Some e \<Rightarrow> [(i, e)]) @ live_from (i + 1) (drop (i + 1) es)"
  using assms by (simp add: Cons_nth_drop_Suc [symmetric] split: option.splits)

lemma forEach_loop_quiet:
  assumes q: "\<And>e w. arrays (snd (Call f t [e, e, S] w)) a = arrays w a"
    and n: "\<And>e w. \<not> is_abrupt (fst (Call f t [e, e, S] w))"
  shows "\<exists>w' log'. forEach_loop Call f t S a (w, i, log) = Some (Normal Undefined, w', log') \<and>
           visited log' = visited log @ live_from i (drop i (arrays w a)) \<and>
           arrays w' a = arrays w a"
proof (induction "length (arrays w a) - i" arbitrary: w i log)
  case 0
  then have "\<not> i < length (arrays w a)" by simp
  then show ?case by (simp add: forEach_loop_stop forEach_step_end)
next
  case (Suc k)
  then have lt: "i < length (arrays w a)" by simp
  show ?case
  proof (cases "arrays w a ! i")
    case None
    have "forEach_loop Call f t S a (w, i, log) = forEach_loop Call f t S a (w, i + 1, log @ [Skipped i w])"
      using lt None by (intro forEach_loop_next) (simp add: forEach_next_def forEach_step_hole)
    moreover from Suc(2) have "k = length (arrays w a) - (i + 1)" by simp
    from Suc(1) [OF this, of "log @ [Skipped i w]"] obtain w' log' where
      "forEach_loop Call f t S a (w, i + 1, log @ [Skipped i w]) = Some (Normal Undefined, w', log')"
      "visited log' = visited (log @ [Skipped i w]) @ live_from (i + 1) (drop (i + 1) (arrays w a))"
      "arrays w' a = arrays w a" by (elim exE conjE)
    ultimately show ?thesis using lt None by (simp add: visited_append live_from_drop)
  next
    case (Some e)
    obtain c w1 where c: "Call f t [e, e, S] w = (c, w1)" by (cases "Call f t [e, e, S] w")
    from n [of e w] c have nc: "\<not> is_abrupt c" by simp
    from q [of e w] c have a1: "arrays w1 a = arrays w a" by simp
    have "forEach_loop Call f t S a (w, i, log) = forEach_loop Call f t S a (w1, i + 1, log @ [Called i e w])"
      using lt Some c nc by (intro forEach_loop_next) (simp add: forEach_next_def forEach_step_normal)
    moreover from Suc(2) a1 have "k = length (arrays w1 a) - (i + 1)" by simp
    from Suc(1) [OF this, of "log @ [Called i e w]"] obtain w' log' where
      "forEach_loop Call f t S a (w1, i + 1, log @ [Called i e w]) = Some (Normal Undefined, w', log')"
      "visited log' = visited (log @ [Called i e w]) @ live_from (i + 1) (drop (i + 1) (arrays w1 a))"
      "arrays w' a = arrays w1 a" by (elim exE conjE)
    ultimately show ?thesis using lt Some a1 by (simp add: visited_append live_from_drop)
  qed
qed

subsection \<open>The brand check and abrupt callbacks\<close>

lemma w_abc_slot: "slot_SetData w_abc (Object 0) = Some 0"
  by (simp add: w_abc_def slot_SetData_def)

lemma w_a_slot: "slot_SetData w_a (Object 0) = Some 0"
  by (simp add: w_a_def slot_SetData_def)

lemma w_demo_slot: "slot_SetData w_demo (Object 0) = Some 0"
  by (simp add: w_demo_def slot_SetData_def)

lemma is_fn_1: "is_fn (Object 1) \<noteq> Boolean False"
  by (simp add: is_fn_def)

theorem SetProto_forEach_abrupt_witness:
  "slot_SetData w_abc (Object 0) = Some 0
   \<and> is_fn (Object 1) \<noteq> Boolean False
   \<and> rtranclp (forEach_next stopping_call (Object 1) Undefined (Object 0) 0)
        (w_abc, 0, []) (w_abc, 1, [Called 0 (String ''a'') w_abc])
   \<and> 1 < length (arrays w_abc 0)
   \<and> arrays w_abc 0 ! 1 = Some (String ''b'')
   \<and> stopping_call (Object 1) Undefined [String ''b'', String ''b'', Object 0] w_abc
        = (Throw (Val (String ''stop'')), w_abc)
   \<and> is_abrupt (Throw (Val (String ''stop'')))
   \<and> SetProto_forEach stopping_call is_fn (Object 1) Undefined (Object 0) w_abc
        = Some (Throw (Val (String ''stop'')), w_abc,
                [Called 0 (String ''a'') w_abc, Called 1 (String ''b'') w_abc])"
proof -
  have r: "rtranclp (forEach_next stopping_call (Object 1) Undefined (Object 0) 0)
        (w_abc, 0, []) (w_abc, 1, [Called 0 (String ''a'') w_abc])"
    by (rule r_into_rtranclp)
      (simp add: forEach_next_def forEach_step_def stopping_call_def w_abc_def)
  have l: "1 < length (arrays w_abc 0)" by (simp add: w_abc_def)
  have e: "arrays w_abc 0 ! 1 = Some (String ''b'')" by (simp add: w_abc_def)
  have c: "stopping_call (Object 1) Undefined [String ''b'', String ''b'', Object 0] w_abc
        = (Throw (Val (String ''stop'')), w_abc)" by (simp add: stopping_call_def)
  have a: "is_abrupt (Throw (Val (String ''stop'')))" by (simp add: is_abrupt_def)
  from SetProto_forEach_abrupt [where Call = stopping_call and IsCallable = is_fn
      and f = "Object 1" and t = Undefined and S = "Object 0" and ?w0.0 = w_abc and w = w_abc
      and e = "String ''b''", OF w_abc_slot is_fn_1 r l e c a]
    w_abc_slot is_fn_1 r l e c a
  show ?thesis by simp
qed

lemma RequireInternalSlot_missing:
  "slot_SetData w S = None \<Longrightarrow>
     RequireInternalSlot w S ''SetData'' = Throw (NewError ''TypeError'' ''InternalSlotMissing'' [V S, H ''SetData''])"
  by (simp add: RequireInternalSlot_def surroundingAgent_Throw_def)

text \<open>
  C6. On a receiver without the \<open>SetData\<close> slot (an object without it, or no object at
  all), each of \<open>add\<close>, \<open>clear\<close>, \<open>delete\<close>, \<open>forEach\<close>, \<open>has\<close> and the size getter returns
  the same throw completion, the error \<open>InternalSlotMissing\<close> for the receiver and the slot
  name, and leaves the store as it was; \<open>forEach\<close> has then called nothing. The message
  names the slot and prints the receiver.
\<close>

theorem SetProto_brand_check:
  assumes "slot_SetData w S = None"
  shows "SetProto_add v S w = (Throw (NewError ''TypeError'' ''InternalSlotMissing'' [V S, H ''SetData'']), w)
       \<and> SetProto_clear S w = (Throw (NewError ''TypeError'' ''InternalSlotMissing'' [V S, H ''SetData'']), w)
       \<and> SetProto_delete v S w = (Throw (NewError ''TypeError'' ''InternalSlotMissing'' [V S, H ''SetData'']), w)
       \<and> SetProto_forEach Call IsCallable f t S w
            = Some (Throw (NewError ''TypeError'' ''InternalSlotMissing'' [V S, H ''SetData'']), w, [])
       \<and> SetProto_has v S w = (Throw (NewError ''TypeError'' ''InternalSlotMissing'' [V S, H ''SetData'']), w)
       \<and> SetProto_sizeGetter S w
            = (Abrupt (Throw (NewError ''TypeError'' ''InternalSlotMissing'' [V S, H ''SetData''])), w)
       \<and> messages inspect ''InternalSlotMissing'' [V S, H ''SetData'']
            = Some (''Internal slot SetData is missing for '' @ inspect S)"
  using assms
  by (simp add: SetProto_add_def SetProto_clear_def SetProto_delete_def SetProto_forEach_def
      SetProto_has_def SetProto_sizeGetter_def RequireInternalSlot_missing messages_def
      InternalSlotMissing_def msg_i_def)

theorem SetProto_brand_check_witness:
  "slot_SetData w_demo (Object 7) = None
   \<and> slot_SetData w_demo (String ''s'') = None
   \<and> SetProto_add (Number double_1) (Object 7) w_demo
        = (Throw (NewError ''TypeError'' ''InternalSlotMissing'' [V (Object 7), H ''SetData'']), w_demo)
   \<and> SetProto_sizeGetter (String ''s'') w_demo
        = (Abrupt (Throw (NewError ''TypeError'' ''InternalSlotMissing'' [V (String ''s''), H ''SetData''])), w_demo)
   \<and> messages (\<lambda>v. ''#'') ''InternalSlotMissing'' [V (Object 7), H ''SetData'']
        = Some ''Internal slot SetData is missing for #''"
proof -
  have a: "slot_SetData w_demo (Object 7) = None" by (simp add: w_demo_def slot_SetData_def)
  have b: "slot_SetData w_demo (String ''s'') = None" by (simp add: slot_SetData_def)
  from SetProto_brand_check [OF a, where v = "Number double_1" and inspect = "\<lambda>v. ''#''"]
    SetProto_brand_check [OF b] a b
  show ?thesis by simp
qed

subsection \<open>What forEach visits\<close>

text \<open>
  C3, as the code has it. A run of \<open>forEach\<close> on a receiver with the \<open>SetData\<close> slot that
  returns has examined the slots \<open>0, 1, 2, ...\<close> one after the other, each once; it has
  called the callback on exactly the slots that held an element at the moment it came to
  them, and has passed over those empty at that moment, each seen in the store that the
  calls before it had left (there is no snapshot, and an emptied slot is never come back
  to); and when it returns normally it has gone on up to the length the array has in the
  end, so that it has come to the elements appended during the run as well. When no call
  changes the array or returns abruptly, \<open>forEach\<close> returns \<open>undefined\<close>, having called
  the callback on exactly the elements of the array, in the order of the slots.
\<close>

theorem SetProto_forEach_visits:
  assumes "slot_SetData w0 S = Some a" and "IsCallable f \<noteq> Boolean False"
  shows "(\<forall>c w' log. SetProto_forEach Call IsCallable f t S w0 = Some (c, w', log) \<longrightarrow>
            map event_index log = [0..<length log]
            \<and> (\<forall>ev\<in>set log. event_ok a ev)
            \<and> follows Call f t S w0 log w'
            \<and> (\<not> is_abrupt c \<longrightarrow> c = Normal Undefined \<and> length (arrays w' a) \<le> length log))
       \<and> ((\<forall>e w. arrays (snd (Call f t [e, e, S] w)) a = arrays w a
                  \<and> \<not> is_abrupt (fst (Call f t [e, e, S] w))) \<longrightarrow>
            (\<exists>w' log. SetProto_forEach Call IsCallable f t S w0 = Some (Normal Undefined, w', log)
                  \<and> visited log = live_from 0 (arrays w0 a)
                  \<and> arrays w' a = arrays w0 a))"
proof (intro conjI allI impI)
  fix c w' log
  assume "SetProto_forEach Call IsCallable f t S w0 = Some (c, w', log)"
  then have run: "forEach_loop Call f t S a (w0, 0, []) = Some (c, w', log)"
    using assms by (simp add: SetProto_forEach_eq)
  show "map event_index log = [0..<length log]" using run by (rule forEach_loop_log(1))
  show "\<forall>ev\<in>set log. event_ok a ev" using run by (rule forEach_loop_log(2))
  show "follows Call f t S w0 log w'" using run by (rule forEach_loop_log(3))
  assume n: "\<not> is_abrupt c"
  show "c = Normal Undefined" using forEach_loop_log(4) [OF run n] by simp
  show "length (arrays w' a) \<le> length log" using forEach_loop_log(4) [OF run n] by simp
next
  assume q: "\<forall>e w. arrays (snd (Call f t [e, e, S] w)) a = arrays w a
                  \<and> \<not> is_abrupt (fst (Call f t [e, e, S] w))"
  have "\<exists>w' log'. forEach_loop Call f t S a (w0, 0, []) = Some (Normal Undefined, w', log') \<and>
           visited log' = live_from 0 (arrays w0 a) \<and>
           arrays w' a = arrays w0 a"
    using forEach_loop_quiet [where Call = Call and f = f and t = t and S = S and a = a
        and w = w0 and i = 0 and log = "[]"] q by simp
  then show "\<exists>w' log. SetProto_forEach Call IsCallable f t S w0 = Some (Normal Undefined, w', log)
                  \<and> visited log = live_from 0 (arrays w0 a)
                  \<and> arrays w' a = arrays w0 a"
    using assms by (simp add: SetProto_forEach_eq)
qed

theorem SetProto_forEach_visits_witness:
  "slot_SetData w_demo (Object 0) = Some 0
   \<and> is_fn (Object 1) \<noteq> Boolean False
   \<and> (\<forall>e w. arrays (snd (quiet_call (Object 1) Undefined [e, e, Object 0] w)) 0 = arrays w 0
            \<and> \<not> is_abrupt (fst (quiet_call (Object 1) Undefined [e, e, Object 0] w)))
   \<and> (\<exists>w' log. SetProto_forEach quiet_call is_fn (Object 1) Undefined (Object 0) w_demo
                  = Some (Normal Undefined, w', log)
         \<and> visited log = [(0, Number 1), (2, String ''a'')]
         \<and> map event_index log = [0..<length log]
         \<and> list_all (event_ok 0) log
         \<and> follows quiet_call (Object 1) Undefined (Object 0) w_demo log w'
         \<and> length (arrays w' 0) \<le> length log)"
proof -
  have q: "\<forall>e w. arrays (snd (quiet_call (Object 1) Undefined [e, e, Object 0] w)) 0 = arrays w 0
            \<and> \<not> is_abrupt (fst (quiet_call (Object 1) Undefined [e, e, Object 0] w))"
    by (simp add: quiet_call_def is_abrupt_def)
  note t = SetProto_forEach_visits [where Call = quiet_call and t = Undefined and IsCallable = is_fn
      and f = "Object 1", OF w_demo_slot is_fn_1]
  from t q obtain w' log where
    run: "SetProto_forEach quiet_call is_fn (Object 1) Undefined (Object 0) w_demo
            = Some (Normal Undefined, w', log)"
    and v: "visited log = live_from 0 (arrays w_demo 0)" by blast
  from t run have "map event_index log = [0..<length log]" "\<forall>ev\<in>set log. event_ok 0 ev"
    "follows quiet_call (Object 1) Undefined (Object 0) w_demo log w'"
    "length (arrays w' 0) \<le> length log"
    by (simp_all add: is_abrupt_def)
  moreover from v have "visited log = [(0, Number 1), (2, String ''a'')]"
    by (simp add: w_demo_def)
  ultimately show ?thesis
    using w_demo_slot is_fn_1 q run by (auto simp: list_all_iff)
qed

text \<open>
  C3 as the specification has it fails where it keeps the run below the length the array had at the start: on
  the Set of \<open>"a"\<close>, with the callback that adds \<open>"b"\<close> when it is called on \<open>"a"\<close>, the
  array has one slot at the start, and \<open>forEach\<close> calls the callback on slot 0 and then
  on slot 1, the element appended during the run.
\<close>

theorem SetProto_forEach_appended_counterexample:
  "length (arrays w_a 0) = 1
   \<and> map_option (\<lambda>(c, w', log). (c, arrays w' 0, visited log))
        (SetProto_forEach adding_call is_fn (Object 1) Undefined (Object 0) w_a)
      = Some (Normal Undefined, [Some (String ''a''), Some (String ''b'')],
              [(0, String ''a''), (1, String ''b'')])"
proof -
  let ?w1 = "w_a\<lparr>arrays := (arrays w_a)(0 := [Some (String ''a''), Some (String ''b'')])\<rparr>"
  have add: "snd (SetProto_add (String ''b'') (Object 0) w_a) = ?w1"
    by (simp add: SetProto_add_eq [OF w_a_slot]) (simp add: w_a_def SameValueZero_def SameValue_def)
  have c0: "adding_call (Object 1) Undefined [String ''a'', String ''a'', Object 0] w_a = (Normal Undefined, ?w1)"
    by (simp add: adding_call_def add)
  have c1: "adding_call (Object 1) Undefined [String ''b'', String ''b'', Object 0] ?w1 = (Normal Undefined, ?w1)"
    by (simp add: adding_call_def)
  have n: "\<not> is_abrupt (Normal Undefined)" by (simp add: is_abrupt_def)
  have s0: "forEach_step adding_call (Object 1) Undefined (Object 0) 0 (w_a, 0, [])
            = Inl (?w1, 0 + 1, [] @ [Called 0 (String ''a'') w_a])"
    by (rule forEach_step_normal [where Call = adding_call and f = "Object 1" and t = Undefined
          and S = "Object 0" and e = "String ''a''", OF _ _ c0 n]) (simp_all add: w_a_def)
  have s1: "forEach_step adding_call (Object 1) Undefined (Object 0) 0 (?w1, 1, [Called 0 (String ''a'') w_a])
            = Inl (?w1, 1 + 1, [Called 0 (String ''a'') w_a] @ [Called 1 (String ''b'') ?w1])"
    by (rule forEach_step_normal [where Call = adding_call and f = "Object 1" and t = Undefined
          and S = "Object 0" and e = "String ''b''", OF _ _ c1 n]) simp_all
  have s2: "forEach_step adding_call (Object 1) Undefined (Object 0) 0
              (?w1, 2, [Called 0 (String ''a'') w_a, Called 1 (String ''b'') ?w1])
            = Inr (Normal Undefined, ?w1, [Called 0 (String ''a'') w_a, Called 1 (String ''b'') ?w1])"
    by (rule forEach_step_end) simp
  have "SetProto_forEach adding_call is_fn (Object 1) Undefined (Object 0) w_a
          = forEach_loop adding_call (Object 1) Undefined (Object 0) 0 (w_a, 0, [])"
    using w_a_slot is_fn_1 by (rule SetProto_forEach_eq)
  also have "\<dots> = forEach_loop adding_call (Object 1) Undefined (Object 0) 0 (?w1, 1, [Called 0 (String ''a'') w_a])"
    by (rule forEach_loop_next) (insert s0, simp add: forEach_next_def)
  also have "\<dots> = forEach_loop adding_call (Object 1) Undefined (Object 0) 0
                    (?w1, 2, [Called 0 (String ''a'') w_a, Called 1 (String ''b'') ?w1])"
    by (rule forEach_loop_next) (insert s1, simp add: forEach_next_def)
  also have "\<dots> = Some (Normal Undefined, ?w1, [Called 0 (String ''a'') w_a, Called 1 (String ''b'') ?w1])"
    by (rule forEach_loop_stop) (rule s2)
  finally show ?thesis by (simp add: w_a_def)
qed

subsection \<open>Adding the zeros\<close>

lemma SetProto_add_slot [simp]: "slot_SetData (snd (SetProto_add v S' w)) S = slot_SetData w S"
  using SetProto_add_arrays [of v S' w] by auto

lemma SetProto_delete_slot [simp]: "slot_SetData (snd (SetProto_delete v S' w)) S = slot_SetData w S"
  using SetProto_delete_arrays [of v S' w] by auto

lemma SetProto_clear_slot [simp]: "slot_SetData (snd (SetProto_clear S' w)) S = slot_SetData w S"
  using SetProto_clear_arrays [of S' w] by auto

lemma SetProto_add_arrays_eq:
  assumes "slot_SetData w S = Some a"
  shows "arrays (snd (SetProto_add v S w)) a =
           (if scan (arrays w a) v then arrays w a
            else arrays w a @ [Some (if v = Number neg_zero then Number pos_zero else v)])"
  using assms by (simp add: SetProto_add_eq)

lemma scan_after_add:
  assumes "slot_SetData w S = Some a"
  shows "scan (arrays (snd (SetProto_add v S w)) a) v"
  using assms scan_after_append [of "arrays w a" v] by (simp add: SetProto_add_arrays_eq)

lemma scan_kept_by_add:
  assumes "slot_SetData w S = Some a" "scan (arrays w a) u"
  shows "scan (arrays (snd (SetProto_add v S w)) a) u"
  using assms by (simp add: SetProto_add_arrays_eq scan_append)

text \<open>
  C2, as the code has it. On a receiver with the \<open>SetData\<close> slot, \<open>add(-0)\<close> leaves the
  array as it is when a slot holds a zero already, and appends \<open>+0\<close> (never \<open>-0\<close>)
  otherwise; \<open>has(+0)\<close> then returns \<open>true\<close>; a following \<open>add(+0)\<close> changes nothing; and
  the size getter then returns the number of elements the Set held before, plus one when
  it held no zero: 1 for a Set that held no element.
\<close>

theorem SetProto_add_neg_zero:
  assumes "slot_SetData w S = Some a"
  shows "arrays (snd (SetProto_add (Number neg_zero) S w)) a =
           (if (\<exists>x. Some x \<in> set (arrays w a) \<and> SameValueZero x (Number pos_zero) = Boolean True)
            then arrays w a else arrays w a @ [Some (Number pos_zero)])
       \<and> SetProto_has (Number pos_zero) S (snd (SetProto_add (Number neg_zero) S w))
           = (Normal (Boolean True), snd (SetProto_add (Number neg_zero) S w))
       \<and> SetProto_add (Number pos_zero) S (snd (SetProto_add (Number neg_zero) S w))
           = (Normal S, snd (SetProto_add (Number neg_zero) S w))
       \<and> fst (SetProto_sizeGetter S
                 (snd (SetProto_add (Number pos_zero) S (snd (SetProto_add (Number neg_zero) S w)))))
           = Count (length (filter (\<lambda>e. e \<noteq> None) (arrays w a)) +
                    (if (\<exists>x. Some x \<in> set (arrays w a) \<and> SameValueZero x (Number pos_zero) = Boolean True)
                     then 0 else 1))
       \<and> ((\<forall>e\<in>set (arrays w a). e = None) \<longrightarrow>
            fst (SetProto_sizeGetter S
                  (snd (SetProto_add (Number pos_zero) S (snd (SetProto_add (Number neg_zero) S w)))))
            = Count 1)"
proof -
  let ?w1 = "snd (SetProto_add (Number neg_zero) S w)"
  have s1: "slot_SetData ?w1 S = Some a" using assms by simp
  have a1: "arrays ?w1 a =
           (if (\<exists>x. Some x \<in> set (arrays w a) \<and> SameValueZero x (Number pos_zero) = Boolean True)
            then arrays w a else arrays w a @ [Some (Number pos_zero)])"
    using assms by (simp add: SetProto_add_arrays_eq scan_iff)
  have sc: "scan (arrays ?w1 a) (Number pos_zero)"
    using scan_after_add [OF assms, of "Number neg_zero"] by simp
  have h: "SetProto_has (Number pos_zero) S ?w1 = (Normal (Boolean True), ?w1)"
    using sc by (simp add: SetProto_has_eq [OF s1])
  have a2: "SetProto_add (Number pos_zero) S ?w1 = (Normal S, ?w1)"
    using sc by (simp add: SetProto_add_eq [OF s1])
  have sz: "fst (SetProto_sizeGetter S (snd (SetProto_add (Number pos_zero) S ?w1)))
           = Count (length (filter (\<lambda>e. e \<noteq> None) (arrays w a)) +
                    (if (\<exists>x. Some x \<in> set (arrays w a) \<and> SameValueZero x (Number pos_zero) = Boolean True)
                     then 0 else 1))"
    by (simp add: a2 SetProto_sizeGetter_eq [OF s1] a1)
  have e: "(\<forall>e\<in>set (arrays w a). e = None) \<longrightarrow>
            fst (SetProto_sizeGetter S (snd (SetProto_add (Number pos_zero) S ?w1))) = Count 1"
  proof
    assume n: "\<forall>e\<in>set (arrays w a). e = None"
    then have "filter (\<lambda>e. e \<noteq> None) (arrays w a) = []" by (simp add: filter_empty_conv)
    moreover from n have "\<not> (\<exists>x. Some x \<in> set (arrays w a) \<and> SameValueZero x (Number pos_zero) = Boolean True)"
      by auto
    ultimately show "fst (SetProto_sizeGetter S (snd (SetProto_add (Number pos_zero) S ?w1))) = Count 1"
      by (simp add: sz)
  qed
  from a1 h a2 sz e show ?thesis by blast
qed

lemma w_new_arrays: "arrays w_new 0 = []"
  by (simp add: w_new_def)

theorem SetProto_add_neg_zero_witness:
  "slot_SetData w_new (Object 0) = Some 0
   \<and> list_all (\<lambda>e. e = None) (arrays w_new 0)
   \<and> arrays (snd (SetProto_add (Number neg_zero) (Object 0) w_new)) 0 = [Some (Number pos_zero)]
   \<and> SetProto_has (Number pos_zero) (Object 0) (snd (SetProto_add (Number neg_zero) (Object 0) w_new))
       = (Normal (Boolean True), snd (SetProto_add (Number neg_zero) (Object 0) w_new))
   \<and> fst (SetProto_sizeGetter (Object 0)
            (snd (SetProto_add (Number pos_zero) (Object 0)
                   (snd (SetProto_add (Number neg_zero) (Object 0) w_new)))))
       = Count 1"
proof -
  note t = SetProto_add_neg_zero [OF w_new_slot]
  have e: "\<forall>e\<in>set (arrays w_new 0). e = None" by (simp add: w_new_arrays)
  from t have "arrays (snd (SetProto_add (Number neg_zero) (Object 0) w_new)) 0 =
           (if (\<exists>x. Some x \<in> set (arrays w_new 0) \<and> SameValueZero x (Number pos_zero) = Boolean True)
            then arrays w_new 0 else arrays w_new 0 @ [Some (Number pos_zero)])" by blast
  then have c1: "arrays (snd (SetProto_add (Number neg_zero) (Object 0) w_new)) 0 = [Some (Number pos_zero)]"
    by (simp add: w_new_arrays)
  from t have c2: "SetProto_has (Number pos_zero) (Object 0) (snd (SetProto_add (Number neg_zero) (Object 0) w_new))
       = (Normal (Boolean True), snd (SetProto_add (Number neg_zero) (Object 0) w_new))" by blast
  from t e have c3: "fst (SetProto_sizeGetter (Object 0)
            (snd (SetProto_add (Number pos_zero) (Object 0)
                   (snd (SetProto_add (Number neg_zero) (Object 0) w_new)))))
       = Count 1" by blast
  have l: "list_all (\<lambda>e. e = None) (arrays w_new 0)" by (simp add: w_new_arrays)
  from w_new_slot l c1 c2 c3 show ?thesis by (intro conjI)
qed

lemma double_1_not_zero:
  "SameValueZero (Number double_1) (Number pos_zero) \<noteq> Boolean True"
  by (simp add: SameValueZero_def number_equal_def isNaN_def double_1_def pos_zero_def neg_zero_def)

lemma w_one_eq: "w_one = w_new\<lparr>arrays := (arrays w_new)(0 := [Some (Number double_1)])\<rparr>"
  unfolding w_one_def
  by (simp add: SetProto_add_eq [OF w_new_slot] w_new_arrays)
    (simp add: double_1_def neg_zero_def)

text \<open>
  C2 as the specification has it fails where it has the size getter return 1 on every receiver: on the Set
  that holds the element 1, the size after \<open>add(-0)\<close> and \<open>add(+0)\<close> is 2.
\<close>

theorem SetProto_size_after_zeros_counterexample:
  "reachable (Object 0) w_one
   \<and> slot_SetData w_one (Object 0) = Some 0
   \<and> fst (SetProto_sizeGetter (Object 0)
            (snd (SetProto_add (Number pos_zero) (Object 0)
                   (snd (SetProto_add (Number neg_zero) (Object 0) w_one)))))
       = Count 2"
proof -
  have r: "reachable (Object 0) w_one"
    unfolding w_one_def
    by (rule reachable.add, rule reachable.created [OF w_new_slot]) (rule w_new_arrays)
  have s: "slot_SetData w_one (Object 0) = Some 0"
    by (simp add: w_one_def w_new_slot)
  have a: "arrays w_one 0 = [Some (Number double_1)]"
    by (simp add: w_one_eq)
  have n: "\<not> scan (arrays w_one 0) (Number pos_zero)"
    using double_1_not_zero by (simp add: a)
  let ?w1 = "snd (SetProto_add (Number neg_zero) (Object 0) w_one)"
  have s1: "slot_SetData ?w1 (Object 0) = Some 0" using s by simp
  have a1: "arrays ?w1 0 = [Some (Number double_1), Some (Number pos_zero)]"
    using n by (simp add: SetProto_add_arrays_eq [OF s] a)
  have "scan (arrays ?w1 0) (Number pos_zero)" by (simp add: a1)
  then have "snd (SetProto_add (Number pos_zero) (Object 0) ?w1) = ?w1"
    by (simp add: SetProto_add_eq [OF s1])
  then have "fst (SetProto_sizeGetter (Object 0) (snd (SetProto_add (Number pos_zero) (Object 0) ?w1))) = Count 2"
    by (simp add: SetProto_sizeGetter_eq [OF s1] a1)
  with r s show ?thesis by simp
qed

subsection \<open>delete\<close>

lemma scan_first:
  assumes "scan es v"
  shows "\<exists>k e. k < length es \<and> es ! k = Some e \<and> SameValueZero e v = Boolean True \<and>
           (\<forall>j<k. case es ! j of None \<Rightarrow> True | Some x \<Rightarrow> SameValueZero x v \<noteq> Boolean True)"
  using assms
proof (induction es)
  case Nil
  then show ?case by simp
next
  case (Cons x es)
  show ?case
  proof (cases "case x of None \<Rightarrow> False | Some y \<Rightarrow> SameValueZero y v = Boolean True")
    case True
    then obtain y where "x = Some y" "SameValueZero y v = Boolean True"
      by (cases x) auto
    then show ?thesis by (intro exI [of _ 0] exI [of _ y]) simp
  next
    case False
    with Cons.prems have "scan es v" by (cases x) (auto split: if_splits)
    from Cons.IH [OF this] obtain k e where k: "k < length es" "es ! k = Some e"
      "SameValueZero e v = Boolean True"
      "\<forall>j<k. case es ! j of None \<Rightarrow> True | Some x \<Rightarrow> SameValueZero x v \<noteq> Boolean True"
      by blast
    have "\<forall>j<Suc k. case (x # es) ! j of None \<Rightarrow> True | Some x \<Rightarrow> SameValueZero x v \<noteq> Boolean True"
    proof (intro allI impI)
      fix j assume "j < Suc k"
      then show "case (x # es) ! j of None \<Rightarrow> True | Some x \<Rightarrow> SameValueZero x v \<noteq> Boolean True"
        using False k(4) by (cases j) (auto split: option.splits)
    qed
    with k show ?thesis by (intro exI [of _ "Suc k"] exI [of _ e]) simp
  qed
qed

lemma set_live_from:
  "set (live_from i es) = {(i + j, e) | j e. j < length es \<and> es ! j = Some e}"
proof (induction i es rule: live_from.induct)
  case (1 i)
  show ?case by simp
next
  case (2 i es)
  have "{(i + j, e) | j e. j < length (None # es) \<and> (None # es) ! j = Some e}
        = {(i + 1 + j, e) | j e. j < length es \<and> es ! j = Some e}"
    (is "?A = ?B")
  proof (intro set_eqI iffI)
    fix p assume "p \<in> ?A"
    then obtain j e where "p = (i + j, e)" "j < length (None # es)" "(None # es) ! j = Some e" by blast
    then show "p \<in> ?B" by (cases j) auto
  next
    fix p assume "p \<in> ?B"
    then obtain j e where "p = (i + 1 + j, e)" "j < length es" "es ! j = Some e" by blast
    then show "p \<in> ?A" by (intro CollectI exI [of _ "Suc j"] exI [of _ e]) simp
  qed
  with 2 show ?case by simp
next
  case (3 i x es)
  have "{(i + j, e) | j e. j < length (Some x # es) \<and> (Some x # es) ! j = Some e}
        = insert (i, x) {(i + 1 + j, e) | j e. j < length es \<and> es ! j = Some e}"
    (is "?A = insert _ ?B")
  proof (intro set_eqI iffI)
    fix p assume "p \<in> ?A"
    then obtain j e where "p = (i + j, e)" "j < length (Some x # es)" "(Some x # es) ! j = Some e" by blast
    then show "p \<in> insert (i, x) ?B" by (cases j) auto
  next
    fix p assume "p \<in> insert (i, x) ?B"
    then consider "p = (i, x)" | j e where "p = (i + 1 + j, e)" "j < length es" "es ! j = Some e" by blast
    then show "p \<in> ?A"
    proof cases
      case 1
      then show ?thesis by (intro CollectI exI [of _ 0] exI [of _ x]) simp
    next
      case 2
      then show ?thesis by (intro CollectI exI [of _ "Suc j"] exI [of _ e]) simp
    qed
  qed
  with 3 show ?case by simp
qed

lemma in_live_from_0:
  "(j, e) \<in> set (live_from 0 es) \<longleftrightarrow> j < length es \<and> es ! j = Some e"
  by (auto simp: set_live_from)

text \<open>After \<open>add(v1); add(v2); delete(v1)\<close> on an array without duplicates.\<close>

lemma delete_after_adds:
  assumes nd: "no_duplicates es2" and s1: "scan es2 v1" and s2: "scan es2 v2"
    and d: "SameValueZero v1 v2 \<noteq> Boolean True"
  shows "\<exists>k. delete_loop es2 v1 0 = (es2[k := None], Boolean True) \<and>
             (\<forall>j x. j < length es2 \<and> es2[k := None] ! j = Some x \<longrightarrow> SameValueZero x v1 \<noteq> Boolean True) \<and>
             (\<exists>m y. m < length es2 \<and> es2[k := None] ! m = Some y \<and> SameValueZero y v2 = Boolean True)"
proof -
  from scan_first [OF s1] obtain k e where k: "k < length es2" "es2 ! k = Some e"
    "SameValueZero e v1 = Boolean True"
    "\<forall>j<k. case es2 ! j of None \<Rightarrow> True | Some x \<Rightarrow> SameValueZero x v1 \<noteq> Boolean True"
    by blast
  have del: "delete_loop es2 v1 0 = (es2[k := None], Boolean True)"
    using k by (intro delete_loop_hit) auto
  have none: "\<forall>j x. j < length es2 \<and> es2[k := None] ! j = Some x \<longrightarrow> SameValueZero x v1 \<noteq> Boolean True"
  proof (intro allI impI notI)
    fix j x
    assume h: "j < length es2 \<and> es2[k := None] ! j = Some x" and eq: "SameValueZero x v1 = Boolean True"
    from h k(1) have jk: "j \<noteq> k" by (auto simp: nth_list_update split: if_splits)
    with h have x: "es2 ! j = Some x" by simp
    from k(3) have "SameValueZero v1 e = Boolean True" by (simp add: SameValueZero_sym)
    with eq have xe: "SameValueZero x e = Boolean True" by (rule SameValueZero_trans)
    then have ex: "SameValueZero e x = Boolean True" by (simp add: SameValueZero_sym)
    from jk consider "j < k" | "k < j" by linarith
    then show False
    proof cases
      case 1
      with nd k(1,2) x xe show False by (blast dest: no_duplicatesD)
    next
      case 2
      with nd h k(2) x ex show False by (blast dest: no_duplicatesD)
    qed
  qed
  from s2 obtain y where y: "Some y \<in> set es2" "SameValueZero y v2 = Boolean True"
    by (auto simp: scan_iff)
  then obtain m where m: "m < length es2" "es2 ! m = Some y" by (auto simp: in_set_conv_nth)
  have "m \<noteq> k"
  proof
    assume "m = k"
    with m k(2) have "y = e" by simp
    with y(2) have "SameValueZero e v2 = Boolean True" by simp
    moreover from k(3) have "SameValueZero v1 e = Boolean True" by (simp add: SameValueZero_sym)
    ultimately have "SameValueZero v1 v2 = Boolean True" by (rule SameValueZero_trans [rotated])
    with d show False by simp
  qed
  with m y(2) have "\<exists>m y. m < length es2 \<and> es2[k := None] ! m = Some y \<and> SameValueZero y v2 = Boolean True"
    by (intro exI [of _ m] exI [of _ y]) simp
  with del none show ?thesis by blast
qed


lemma SameValueZero_canonical_left:
  "SameValueZero (if v = Number neg_zero then Number pos_zero else v) u = SameValueZero v u"
  by (simp add: SameValueZero_sym [of _ u])

lemma SetProto_forEach_quiet:
  assumes "slot_SetData w S = Some a" and "IsCallable f \<noteq> Boolean False"
    and "\<forall>e w. arrays (snd (Call f t [e, e, S] w)) a = arrays w a
              \<and> \<not> is_abrupt (fst (Call f t [e, e, S] w))"
  shows "\<exists>w' log. SetProto_forEach Call IsCallable f t S w = Some (Normal Undefined, w', log)
           \<and> visited log = live_from 0 (arrays w a)"
proof -
  have "\<exists>w' log'. forEach_loop Call f t S a (w, 0, []) = Some (Normal Undefined, w', log') \<and>
           visited log' = live_from 0 (arrays w a) \<and> arrays w' a = arrays w a"
    using forEach_loop_quiet [where Call = Call and f = f and t = t and S = S and a = a
        and w = w and i = 0 and log = "[]"] assms(3) by simp
  then show ?thesis using assms(1,2) by (auto simp: SetProto_forEach_eq)
qed

lemma SetProto_delete_arrays_eq:
  assumes "slot_SetData w S = Some a"
  shows "arrays (snd (SetProto_delete v S w)) a = fst (delete_loop (arrays w a) v 0)"
  using assms by (simp add: SetProto_delete_eq)

text \<open>
  C4. On a receiver with the \<open>SetData\<close> slot, \<open>delete\<close> empties the first slot that holds
  an element SameValueZero-equal to the value and returns \<open>true\<close>, changing nothing else
  in the store; without such a slot it returns \<open>false\<close> and leaves the store as it is;
  the array keeps its length either way. After \<open>add(v1); add(v2); delete(v1)\<close> with two
  different values (such as 1 and 2) on a Set in any store it can reach, \<open>forEach\<close> with a
  callback that leaves the array alone calls it on no element equal to \<open>v1\<close> and on one
  equal to \<open>v2\<close>; on the new Set it calls it on \<open>v2\<close> only, in slot 1.
\<close>

theorem SetProto_delete_hole:
  assumes "slot_SetData w S = Some a"
  shows "(\<forall>k e. k < length (arrays w a) \<and> arrays w a ! k = Some e \<and> SameValueZero e v = Boolean True
               \<and> (\<forall>j<k. case arrays w a ! j of None \<Rightarrow> True | Some x \<Rightarrow> SameValueZero x v \<noteq> Boolean True)
            \<longrightarrow> SetProto_delete v S w
                  = (Normal (Boolean True), w\<lparr>arrays := (arrays w)(a := (arrays w a)[k := None])\<rparr>))
       \<and> ((\<forall>j<length (arrays w a). case arrays w a ! j of None \<Rightarrow> True | Some x \<Rightarrow> SameValueZero x v \<noteq> Boolean True)
            \<longrightarrow> SetProto_delete v S w = (Normal (Boolean False), w))
       \<and> length (arrays (snd (SetProto_delete v S w)) a) = length (arrays w a)
       \<and> (reachable S w \<and> SameValueZero v1 v2 \<noteq> Boolean True \<and> IsCallable f \<noteq> Boolean False
            \<and> (\<forall>e w. arrays (snd (Call f t [e, e, S] w)) a = arrays w a
                      \<and> \<not> is_abrupt (fst (Call f t [e, e, S] w)))
            \<longrightarrow> (\<exists>w' log.
                   SetProto_forEach Call IsCallable f t S
                     (snd (SetProto_delete v1 S (snd (SetProto_add v2 S (snd (SetProto_add v1 S w))))))
                     = Some (Normal Undefined, w', log)
                   \<and> (\<forall>(j, x)\<in>set (visited log). SameValueZero x v1 \<noteq> Boolean True)
                   \<and> (\<exists>(j, x)\<in>set (visited log). SameValueZero x v2 = Boolean True)
                   \<and> (arrays w a = [] \<longrightarrow>
                        visited log = [(1, if v2 = Number neg_zero then Number pos_zero else v2)])))"
proof (intro conjI allI impI)
  fix k e
  assume h: "k < length (arrays w a) \<and> arrays w a ! k = Some e \<and> SameValueZero e v = Boolean True
               \<and> (\<forall>j<k. case arrays w a ! j of None \<Rightarrow> True | Some x \<Rightarrow> SameValueZero x v \<noteq> Boolean True)"
  then have "delete_loop (arrays w a) v 0 = ((arrays w a)[k := None], Boolean True)"
    by (intro delete_loop_hit) auto
  then show "SetProto_delete v S w
                  = (Normal (Boolean True), w\<lparr>arrays := (arrays w)(a := (arrays w a)[k := None])\<rparr>)"
    by (simp add: SetProto_delete_eq [OF assms])
next
  assume "\<forall>j<length (arrays w a). case arrays w a ! j of None \<Rightarrow> True | Some x \<Rightarrow> SameValueZero x v \<noteq> Boolean True"
  then have "delete_loop (arrays w a) v 0 = (arrays w a, Boolean False)"
    by (intro delete_loop_miss) auto
  then show "SetProto_delete v S w = (Normal (Boolean False), w)"
    by (simp add: SetProto_delete_eq [OF assms])
next
  show "length (arrays (snd (SetProto_delete v S w)) a) = length (arrays w a)"
    using delete_loop_cases [of "arrays w a" v 0]
    by (auto simp: SetProto_delete_arrays_eq [OF assms])
next
  let ?w1 = "snd (SetProto_add v1 S w)"
  let ?w2 = "snd (SetProto_add v2 S ?w1)"
  let ?w3 = "snd (SetProto_delete v1 S ?w2)"
  let ?c1 = "if v1 = Number neg_zero then Number pos_zero else v1"
  let ?c2 = "if v2 = Number neg_zero then Number pos_zero else v2"
  assume h: "reachable S w \<and> SameValueZero v1 v2 \<noteq> Boolean True \<and> IsCallable f \<noteq> Boolean False
            \<and> (\<forall>e w. arrays (snd (Call f t [e, e, S] w)) a = arrays w a
                      \<and> \<not> is_abrupt (fst (Call f t [e, e, S] w)))"
  have s1: "slot_SetData ?w1 S = Some a" and s2: "slot_SetData ?w2 S = Some a"
    and s3: "slot_SetData ?w3 S = Some a" using assms by simp_all
  from h have "reachable S ?w2" by (intro reachable.add) simp
  with s2 have nd: "no_duplicates (arrays ?w2 a)" using reachable_no_duplicates [of S ?w2] by auto
  have sc1: "scan (arrays ?w2 a) v1"
    using assms s1 by (intro scan_kept_by_add scan_after_add)
  have sc2: "scan (arrays ?w2 a) v2"
    using s1 by (rule scan_after_add)
  from h have d: "SameValueZero v1 v2 \<noteq> Boolean True" by simp
  from delete_after_adds [OF nd sc1 sc2 d] obtain k where
    k: "delete_loop (arrays ?w2 a) v1 0 = ((arrays ?w2 a)[k := None], Boolean True)"
    and none: "\<forall>j x. j < length (arrays ?w2 a) \<and> (arrays ?w2 a)[k := None] ! j = Some x
                 \<longrightarrow> SameValueZero x v1 \<noteq> Boolean True"
    and some: "\<exists>m y. m < length (arrays ?w2 a) \<and> (arrays ?w2 a)[k := None] ! m = Some y
                 \<and> SameValueZero y v2 = Boolean True"
    by blast
  have a3: "arrays ?w3 a = (arrays ?w2 a)[k := None]"
    by (simp add: SetProto_delete_arrays_eq [OF s2] k)
  from h SetProto_forEach_quiet [OF s3, of IsCallable f Call t] obtain w' log where
    run: "SetProto_forEach Call IsCallable f t S ?w3 = Some (Normal Undefined, w', log)"
    and vis: "visited log = live_from 0 (arrays ?w3 a)" by blast
  have v1: "\<forall>(j, x)\<in>set (visited log). SameValueZero x v1 \<noteq> Boolean True"
    using none by (auto simp: vis a3 in_live_from_0)
  from some obtain m y where "m < length (arrays ?w2 a)" "(arrays ?w2 a)[k := None] ! m = Some y"
    "SameValueZero y v2 = Boolean True" by blast
  then have "(m, y) \<in> set (visited log)" by (simp add: vis a3 in_live_from_0)
  with \<open>SameValueZero y v2 = Boolean True\<close>
  have v2: "\<exists>(j, x)\<in>set (visited log). SameValueZero x v2 = Boolean True" by blast
  have new: "arrays w a = [] \<longrightarrow> visited log = [(1, ?c2)]"
  proof
    assume e: "arrays w a = []"
    have a1: "arrays ?w1 a = [Some ?c1]"
      by (simp only: SetProto_add_arrays_eq [OF assms] e) simp
    have "\<not> scan [Some ?c1] v2" using d by (simp add: SameValueZero_canonical_left)
    then have a2: "arrays ?w2 a = [Some ?c1, Some ?c2]"
      by (simp only: SetProto_add_arrays_eq [OF s1] a1) simp
    have "delete_loop [Some ?c1, Some ?c2] v1 0 = ([Some ?c1, Some ?c2][0 := None], Boolean True)"
      by (rule delete_loop_hit [where e = ?c1]) (simp_all add: SameValueZero_canonical_left)
    then have "arrays ?w3 a = [None, Some ?c2]"
      by (simp add: SetProto_delete_arrays_eq [OF s2] a2)
    then show "visited log = [(1, ?c2)]" by (simp add: vis)
  qed
  from run v1 v2 new
  show "\<exists>w' log.
                   SetProto_forEach Call IsCallable f t S ?w3 = Some (Normal Undefined, w', log)
                   \<and> (\<forall>(j, x)\<in>set (visited log). SameValueZero x v1 \<noteq> Boolean True)
                   \<and> (\<exists>(j, x)\<in>set (visited log). SameValueZero x v2 = Boolean True)
                   \<and> (arrays w a = [] \<longrightarrow> visited log = [(1, ?c2)])"
    by blast
qed


lemma doubles_1_2_differ:
  "SameValueZero (Number double_1) (Number double_2) \<noteq> Boolean True"
  by (simp add: SameValueZero_def number_equal_def isNaN_def double_1_def double_2_def
      pos_zero_def neg_zero_def)

theorem SetProto_delete_hole_witness:
  "slot_SetData w_one (Object 0) = Some 0
   \<and> arrays w_one 0 = [Some (Number double_1)]
   \<and> SetProto_delete (Number double_1) (Object 0) w_one
       = (Normal (Boolean True), w_one\<lparr>arrays := (arrays w_one)(0 := (arrays w_one 0)[0 := None])\<rparr>)
   \<and> SetProto_delete (Number double_2) (Object 0) w_one = (Normal (Boolean False), w_one)
   \<and> slot_SetData w_new (Object 0) = Some 0
   \<and> reachable (Object 0) w_new
   \<and> arrays w_new 0 = []
   \<and> SameValueZero (Number double_1) (Number double_2) \<noteq> Boolean True
   \<and> is_fn (Object 1) \<noteq> Boolean False
   \<and> (\<forall>e w. arrays (snd (quiet_call (Object 1) Undefined [e, e, Object 0] w)) 0 = arrays w 0
            \<and> \<not> is_abrupt (fst (quiet_call (Object 1) Undefined [e, e, Object 0] w)))
   \<and> (\<exists>w' log.
         SetProto_forEach quiet_call is_fn (Object 1) Undefined (Object 0)
           (snd (SetProto_delete (Number double_1) (Object 0)
             (snd (SetProto_add (Number double_2) (Object 0)
               (snd (SetProto_add (Number double_1) (Object 0) w_new))))))
           = Some (Normal Undefined, w', log)
         \<and> visited log = [(1, Number double_2)])"
proof -
  have s: "slot_SetData w_one (Object 0) = Some 0"
    by (simp add: w_one_def w_new_slot)
  have a: "arrays w_one 0 = [Some (Number double_1)]"
    by (simp add: w_one_eq)
  note t1 = SetProto_delete_hole [OF s, where v = "Number double_1"]
  have "0 < length (arrays w_one 0) \<and> arrays w_one 0 ! 0 = Some (Number double_1)
        \<and> SameValueZero (Number double_1) (Number double_1) = Boolean True
        \<and> (\<forall>j<0. case arrays w_one 0 ! j of None \<Rightarrow> True
                   | Some x \<Rightarrow> SameValueZero x (Number double_1) \<noteq> Boolean True)"
    by (simp add: a)
  with t1 have hit: "SetProto_delete (Number double_1) (Object 0) w_one
       = (Normal (Boolean True), w_one\<lparr>arrays := (arrays w_one)(0 := (arrays w_one 0)[0 := None])\<rparr>)"
    by blast
  note t2 = SetProto_delete_hole [OF s, where v = "Number double_2"]
  have "\<forall>j<length (arrays w_one 0). case arrays w_one 0 ! j of None \<Rightarrow> True
           | Some x \<Rightarrow> SameValueZero x (Number double_2) \<noteq> Boolean True"
    using doubles_1_2_differ by (simp add: a)
  with t2 have miss: "SetProto_delete (Number double_2) (Object 0) w_one = (Normal (Boolean False), w_one)"
    by blast
  have r: "reachable (Object 0) w_new"
    by (rule reachable.created [OF w_new_slot]) (rule w_new_arrays)
  have q: "\<forall>e w. arrays (snd (quiet_call (Object 1) Undefined [e, e, Object 0] w)) 0 = arrays w 0
            \<and> \<not> is_abrupt (fst (quiet_call (Object 1) Undefined [e, e, Object 0] w))"
    by (simp add: quiet_call_def is_abrupt_def)
  note t3 = SetProto_delete_hole [OF w_new_slot, where ?v1.0 = "Number double_1"
      and ?v2.0 = "Number double_2" and IsCallable = is_fn and f = "Object 1" and Call = quiet_call
      and t = Undefined]
  from t3 r doubles_1_2_differ is_fn_1 q w_new_arrays obtain w' log where
    "SetProto_forEach quiet_call is_fn (Object 1) Undefined (Object 0)
           (snd (SetProto_delete (Number double_1) (Object 0)
             (snd (SetProto_add (Number double_2) (Object 0)
               (snd (SetProto_add (Number double_1) (Object 0) w_new))))))
           = Some (Normal Undefined, w', log)"
    "visited log = [(1, if Number double_2 = Number neg_zero then Number pos_zero else Number double_2)]"
    by blast
  moreover have "double_2 \<noteq> neg_zero" by (simp add: double_2_def neg_zero_def)
  ultimately have sc: "\<exists>w' log.
         SetProto_forEach quiet_call is_fn (Object 1) Undefined (Object 0)
           (snd (SetProto_delete (Number double_1) (Object 0)
             (snd (SetProto_add (Number double_2) (Object 0)
               (snd (SetProto_add (Number double_1) (Object 0) w_new))))))
           = Some (Normal Undefined, w', log)
         \<and> visited log = [(1, Number double_2)]"
    by auto
  from s a hit miss w_new_slot r w_new_arrays doubles_1_2_differ is_fn_1 q sc
  show ?thesis by (intro conjI)
qed

subsection \<open>The messages of the Proxy invariants\<close>

lemma proxy_message_trap:
  "prefix ([CHR 0x27] @ trap_of k @ [CHR 0x27] @ '' on proxy: '') (proxy_message inspect k p)"
  by (cases k) simp_all

lemma proxy_message_trap_eq:
  "takeWhile (\<lambda>c. c \<noteq> CHR 0x27) (tl (proxy_message inspect k p)) = trap_of k"
  by (cases k) simp_all

lemma proxy_message_same_trap:
  assumes "proxy_message inspect k p = proxy_message inspect k' p'"
  shows "trap_of k = trap_of k'"
  using proxy_message_trap_eq [of inspect k p] proxy_message_trap_eq [of inspect k' p'] assms
  by simp


lemma same_tail:
  assumes "xs @ s = ys @ s'" and "n \<le> length s" and "n \<le> length s'"
  shows "drop (length s - n) s = drop (length s' - n) s'"
proof -
  have "drop (length (xs @ s) - n) (xs @ s) = drop (length s - n) s"
    using assms(2) by simp
  moreover have "drop (length (ys @ s') - n) (ys @ s') = drop (length s' - n) s'"
    using assms(3) by simp
  ultimately show ?thesis using assms(1) by simp
qed

text \<open>Two templates of one trap never give the same message.\<close>

lemma msg_DefinePropertyNonConfigurable_DefinePropertyNonConfigurableWritable:
  "proxy_message inspect ProxyDefinePropertyNonConfigurable p \<noteq> proxy_message inspect ProxyDefinePropertyNonConfigurableWritable p'"
proof
  assume "proxy_message inspect ProxyDefinePropertyNonConfigurable p = proxy_message inspect ProxyDefinePropertyNonConfigurableWritable p'"
  then have "msg_i inspect p @ ('' which is either non-existent or configurable in the proxy target'') = msg_i inspect p' @ ('' which cannot be non-writable, unless there exists a corresponding non-configurable, non-writable own property of the target object'')"
    by simp
  then have "drop (length ('' which is either non-existent or configurable in the proxy target'') - 2) ('' which is either non-existent or configurable in the proxy target'') = drop (length ('' which cannot be non-writable, unless there exists a corresponding non-configurable, non-writable own property of the target object'') - 2) ('' which cannot be non-writable, unless there exists a corresponding non-configurable, non-writable own property of the target object'')"
    by (rule same_tail) simp_all
  then show False by simp
qed

lemma msg_DefinePropertyNonConfigurable_DefinePropertyNonExtensible:
  "proxy_message inspect ProxyDefinePropertyNonConfigurable p \<noteq> proxy_message inspect ProxyDefinePropertyNonExtensible p'"
  by simp

lemma msg_DefinePropertyNonConfigurable_DefinePropertyIncompatible:
  "proxy_message inspect ProxyDefinePropertyNonConfigurable p \<noteq> proxy_message inspect ProxyDefinePropertyIncompatible p'"
  by simp

lemma msg_DefinePropertyNonConfigurableWritable_DefinePropertyNonExtensible:
  "proxy_message inspect ProxyDefinePropertyNonConfigurableWritable p \<noteq> proxy_message inspect ProxyDefinePropertyNonExtensible p'"
  by simp

lemma msg_DefinePropertyNonConfigurableWritable_DefinePropertyIncompatible:
  "proxy_message inspect ProxyDefinePropertyNonConfigurableWritable p \<noteq> proxy_message inspect ProxyDefinePropertyIncompatible p'"
  by simp

lemma msg_DefinePropertyNonExtensible_DefinePropertyIncompatible:
  "proxy_message inspect ProxyDefinePropertyNonExtensible p \<noteq> proxy_message inspect ProxyDefinePropertyIncompatible p'"
proof
  assume "proxy_message inspect ProxyDefinePropertyNonExtensible p = proxy_message inspect ProxyDefinePropertyIncompatible p'"
  then have "msg_i inspect p @ ('' to the non-extensible proxy target'') = msg_i inspect p' @ ('' that is incompatible with the existing property in the proxy target'')"
    by simp
  then have "drop (length ('' to the non-extensible proxy target'') - 15) ('' to the non-extensible proxy target'') = drop (length ('' that is incompatible with the existing property in the proxy target'') - 15) ('' that is incompatible with the existing property in the proxy target'')"
    by (rule same_tail) simp_all
  then show False by simp
qed

lemma msg_DeletePropertyNonConfigurable_DeletePropertyNonExtensible:
  "proxy_message inspect ProxyDeletePropertyNonConfigurable p \<noteq> proxy_message inspect ProxyDeletePropertyNonExtensible p'"
proof
  assume "proxy_message inspect ProxyDeletePropertyNonConfigurable p = proxy_message inspect ProxyDeletePropertyNonExtensible p'"
  then have "msg_i inspect p @ ('' which is non-configurable in the proxy target'') = msg_i inspect p' @ ('' but the proxy target is non-extensible'')"
    by simp
  then have "drop (length ('' which is non-configurable in the proxy target'') - 1) ('' which is non-configurable in the proxy target'') = drop (length ('' but the proxy target is non-extensible'') - 1) ('' but the proxy target is non-extensible'')"
    by (rule same_tail) simp_all
  then show False by simp
qed

lemma msg_GetNonConfigurableData_GetNonConfigurableAccessor:
  "proxy_message inspect ProxyGetNonConfigurableData p \<noteq> proxy_message inspect ProxyGetNonConfigurableAccessor p'"
proof
  assume "proxy_message inspect ProxyGetNonConfigurableData p = proxy_message inspect ProxyGetNonConfigurableAccessor p'"
  then have "msg_i inspect p @ ('' is a read-only and non-configurable data property on the proxy target but the proxy did not return its actual value'') = msg_i inspect p' @ ('' is a non-configurable accessor property on the proxy target and does not have a getter function, but the trap did not return '' @ [CHR 0x27] @ ''undefined'' @ [CHR 0x27])"
    by simp
  then have "drop (length ('' is a read-only and non-configurable data property on the proxy target but the proxy did not return its actual value'') - 1) ('' is a read-only and non-configurable data property on the proxy target but the proxy did not return its actual value'') = drop (length ('' is a non-configurable accessor property on the proxy target and does not have a getter function, but the trap did not return '' @ [CHR 0x27] @ ''undefined'' @ [CHR 0x27]) - 1) ('' is a non-configurable accessor property on the proxy target and does not have a getter function, but the trap did not return '' @ [CHR 0x27] @ ''undefined'' @ [CHR 0x27])"
    by (rule same_tail) simp_all
  then show False by simp
qed

lemma msg_GetPrototypeOfInvalid_GetPrototypeOfNonExtensible:
  "proxy_message inspect ProxyGetPrototypeOfInvalid p \<noteq> proxy_message inspect ProxyGetPrototypeOfNonExtensible p'"
  by simp

lemma msg_GetOwnPropertyDescriptorIncompatible_GetOwnPropertyDescriptorInvalid:
  "proxy_message inspect ProxyGetOwnPropertyDescriptorIncompatible p \<noteq> proxy_message inspect ProxyGetOwnPropertyDescriptorInvalid p'"
  by simp

lemma msg_GetOwnPropertyDescriptorIncompatible_GetOwnPropertyDescriptorUndefined:
  "proxy_message inspect ProxyGetOwnPropertyDescriptorIncompatible p \<noteq> proxy_message inspect ProxyGetOwnPropertyDescriptorUndefined p'"
  by simp

lemma msg_GetOwnPropertyDescriptorIncompatible_GetOwnPropertyDescriptorNonExtensible:
  "proxy_message inspect ProxyGetOwnPropertyDescriptorIncompatible p \<noteq> proxy_message inspect ProxyGetOwnPropertyDescriptorNonExtensible p'"
  by simp

lemma msg_GetOwnPropertyDescriptorIncompatible_GetOwnPropertyDescriptorNonConfigurable:
  "proxy_message inspect ProxyGetOwnPropertyDescriptorIncompatible p \<noteq> proxy_message inspect ProxyGetOwnPropertyDescriptorNonConfigurable p'"
  by simp

lemma msg_GetOwnPropertyDescriptorIncompatible_GetOwnPropertyDescriptorNonConfigurableWritable:
  "proxy_message inspect ProxyGetOwnPropertyDescriptorIncompatible p \<noteq> proxy_message inspect ProxyGetOwnPropertyDescriptorNonConfigurableWritable p'"
  by simp

lemma msg_GetOwnPropertyDescriptorInvalid_GetOwnPropertyDescriptorUndefined:
  "proxy_message inspect ProxyGetOwnPropertyDescriptorInvalid p \<noteq> proxy_message inspect ProxyGetOwnPropertyDescriptorUndefined p'"
  by simp

lemma msg_GetOwnPropertyDescriptorInvalid_GetOwnPropertyDescriptorNonExtensible:
  "proxy_message inspect ProxyGetOwnPropertyDescriptorInvalid p \<noteq> proxy_message inspect ProxyGetOwnPropertyDescriptorNonExtensible p'"
  by simp

lemma msg_GetOwnPropertyDescriptorInvalid_GetOwnPropertyDescriptorNonConfigurable:
  "proxy_message inspect ProxyGetOwnPropertyDescriptorInvalid p \<noteq> proxy_message inspect ProxyGetOwnPropertyDescriptorNonConfigurable p'"
  by simp

lemma msg_GetOwnPropertyDescriptorInvalid_GetOwnPropertyDescriptorNonConfigurableWritable:
  "proxy_message inspect ProxyGetOwnPropertyDescriptorInvalid p \<noteq> proxy_message inspect ProxyGetOwnPropertyDescriptorNonConfigurableWritable p'"
  by simp

lemma msg_GetOwnPropertyDescriptorUndefined_GetOwnPropertyDescriptorNonExtensible:
  "proxy_message inspect ProxyGetOwnPropertyDescriptorUndefined p \<noteq> proxy_message inspect ProxyGetOwnPropertyDescriptorNonExtensible p'"
proof
  assume "proxy_message inspect ProxyGetOwnPropertyDescriptorUndefined p = proxy_message inspect ProxyGetOwnPropertyDescriptorNonExtensible p'"
  then have "msg_i inspect p @ ('' which is non-configurable in the proxy target'') = msg_i inspect p' @ ('' which exists in the non-extensible target'')"
    by simp
  then have "drop (length ('' which is non-configurable in the proxy target'') - 8) ('' which is non-configurable in the proxy target'') = drop (length ('' which exists in the non-extensible target'') - 8) ('' which exists in the non-extensible target'')"
    by (rule same_tail) simp_all
  then show False by simp
qed

lemma msg_GetOwnPropertyDescriptorUndefined_GetOwnPropertyDescriptorNonConfigurable:
  "proxy_message inspect ProxyGetOwnPropertyDescriptorUndefined p \<noteq> proxy_message inspect ProxyGetOwnPropertyDescriptorNonConfigurable p'"
  by simp

lemma msg_GetOwnPropertyDescriptorUndefined_GetOwnPropertyDescriptorNonConfigurableWritable:
  "proxy_message inspect ProxyGetOwnPropertyDescriptorUndefined p \<noteq> proxy_message inspect ProxyGetOwnPropertyDescriptorNonConfigurableWritable p'"
  by simp

lemma msg_GetOwnPropertyDescriptorNonExtensible_GetOwnPropertyDescriptorNonConfigurable:
  "proxy_message inspect ProxyGetOwnPropertyDescriptorNonExtensible p \<noteq> proxy_message inspect ProxyGetOwnPropertyDescriptorNonConfigurable p'"
  by simp

lemma msg_GetOwnPropertyDescriptorNonExtensible_GetOwnPropertyDescriptorNonConfigurableWritable:
  "proxy_message inspect ProxyGetOwnPropertyDescriptorNonExtensible p \<noteq> proxy_message inspect ProxyGetOwnPropertyDescriptorNonConfigurableWritable p'"
  by simp

lemma msg_GetOwnPropertyDescriptorNonConfigurable_GetOwnPropertyDescriptorNonConfigurableWritable:
  "proxy_message inspect ProxyGetOwnPropertyDescriptorNonConfigurable p \<noteq> proxy_message inspect ProxyGetOwnPropertyDescriptorNonConfigurableWritable p'"
proof
  assume "proxy_message inspect ProxyGetOwnPropertyDescriptorNonConfigurable p = proxy_message inspect ProxyGetOwnPropertyDescriptorNonConfigurableWritable p'"
  then have "msg_i inspect p @ ('' which is either non-existent or configurable in the proxy target'') = msg_i inspect p' @ ('' which is writable or configurable in the proxy target'')"
    by simp
  then have "drop (length ('' which is either non-existent or configurable in the proxy target'') - 37) ('' which is either non-existent or configurable in the proxy target'') = drop (length ('' which is writable or configurable in the proxy target'') - 37) ('' which is writable or configurable in the proxy target'')"
    by (rule same_tail) simp_all
  then show False by simp
qed

lemma msg_HasNonConfigurable_HasNonExtensible:
  "proxy_message inspect ProxyHasNonConfigurable p \<noteq> proxy_message inspect ProxyHasNonExtensible p'"
proof
  assume "proxy_message inspect ProxyHasNonConfigurable p = proxy_message inspect ProxyHasNonExtensible p'"
  then have "msg_i inspect p @ ('' which exists in the proxy target as non-configurable'') = msg_i inspect p' @ ('' but the proxy target is not extensible'')"
    by simp
  then have "drop (length ('' which exists in the proxy target as non-configurable'') - 4) ('' which exists in the proxy target as non-configurable'') = drop (length ('' but the proxy target is not extensible'') - 4) ('' but the proxy target is not extensible'')"
    by (rule same_tail) simp_all
  then show False by simp
qed

lemma msg_OwnKeysMissing_OwnKeysNonExtensible:
  "proxy_message inspect ProxyOwnKeysMissing p \<noteq> proxy_message inspect ProxyOwnKeysNonExtensible p'"
  by simp

lemma msg_OwnKeysMissing_OwnKeysDuplicateEntries:
  "proxy_message inspect ProxyOwnKeysMissing p \<noteq> proxy_message inspect ProxyOwnKeysDuplicateEntries p'"
  by simp

lemma msg_OwnKeysNonExtensible_OwnKeysDuplicateEntries:
  "proxy_message inspect ProxyOwnKeysNonExtensible p \<noteq> proxy_message inspect ProxyOwnKeysDuplicateEntries p'"
  by simp

lemma msg_SetFrozenData_SetFrozenAccessor:
  "proxy_message inspect ProxySetFrozenData p \<noteq> proxy_message inspect ProxySetFrozenAccessor p'"
proof
  assume "proxy_message inspect ProxySetFrozenData p = proxy_message inspect ProxySetFrozenAccessor p'"
  then have "msg_i inspect p @ ('' which exists in the proxy target as a non-configurable and non-writable data property with a different value'') = msg_i inspect p' @ ('' which exists in the proxy target as a non-configurable and non-writable accessor property without a setter'')"
    by simp
  then have "drop (length ('' which exists in the proxy target as a non-configurable and non-writable data property with a different value'') - 1) ('' which exists in the proxy target as a non-configurable and non-writable data property with a different value'') = drop (length ('' which exists in the proxy target as a non-configurable and non-writable accessor property without a setter'') - 1) ('' which exists in the proxy target as a non-configurable and non-writable accessor property without a setter'')"
    by (rule same_tail) simp_all
  then show False by simp
qed

lemmas proxy_message_pairs =
  msg_DefinePropertyNonConfigurable_DefinePropertyNonConfigurableWritable
  msg_DefinePropertyNonConfigurable_DefinePropertyNonExtensible
  msg_DefinePropertyNonConfigurable_DefinePropertyIncompatible
  msg_DefinePropertyNonConfigurableWritable_DefinePropertyNonExtensible
  msg_DefinePropertyNonConfigurableWritable_DefinePropertyIncompatible
  msg_DefinePropertyNonExtensible_DefinePropertyIncompatible
  msg_DeletePropertyNonConfigurable_DeletePropertyNonExtensible
  msg_GetNonConfigurableData_GetNonConfigurableAccessor
  msg_GetPrototypeOfInvalid_GetPrototypeOfNonExtensible
  msg_GetOwnPropertyDescriptorIncompatible_GetOwnPropertyDescriptorInvalid
  msg_GetOwnPropertyDescriptorIncompatible_GetOwnPropertyDescriptorUndefined
  msg_GetOwnPropertyDescriptorIncompatible_GetOwnPropertyDescriptorNonExtensible
  msg_GetOwnPropertyDescriptorIncompatible_GetOwnPropertyDescriptorNonConfigurable
  msg_GetOwnPropertyDescriptorIncompatible_GetOwnPropertyDescriptorNonConfigurableWritable
  msg_GetOwnPropertyDescriptorInvalid_GetOwnPropertyDescriptorUndefined
  msg_GetOwnPropertyDescriptorInvalid_GetOwnPropertyDescriptorNonExtensible
  msg_GetOwnPropertyDescriptorInvalid_GetOwnPropertyDescriptorNonConfigurable
  msg_GetOwnPropertyDescriptorInvalid_GetOwnPropertyDescriptorNonConfigurableWritable
  msg_GetOwnPropertyDescriptorUndefined_GetOwnPropertyDescriptorNonExtensible
  msg_GetOwnPropertyDescriptorUndefined_GetOwnPropertyDescriptorNonConfigurable
  msg_GetOwnPropertyDescriptorUndefined_GetOwnPropertyDescriptorNonConfigurableWritable
  msg_GetOwnPropertyDescriptorNonExtensible_GetOwnPropertyDescriptorNonConfigurable
  msg_GetOwnPropertyDescriptorNonExtensible_GetOwnPropertyDescriptorNonConfigurableWritable
  msg_GetOwnPropertyDescriptorNonConfigurable_GetOwnPropertyDescriptorNonConfigurableWritable
  msg_HasNonConfigurable_HasNonExtensible
  msg_OwnKeysMissing_OwnKeysNonExtensible
  msg_OwnKeysMissing_OwnKeysDuplicateEntries
  msg_OwnKeysNonExtensible_OwnKeysDuplicateEntries
  msg_SetFrozenData_SetFrozenAccessor

lemma proxy_message_inj:
  assumes "proxy_message inspect k p = proxy_message inspect k' p'"
  shows "k = k'"
proof -
  have t: "trap_of k = trap_of k'" using assms by (rule proxy_message_same_trap)
  have "k = k' \<or> proxy_message inspect k p \<noteq> proxy_message inspect k' p'"
    using t
    by (cases k; cases k')
      (simp_all del: proxy_message.simps add: proxy_message_pairs proxy_message_pairs [THEN not_sym])
  with assms show ?thesis by simp
qed

lemma proxy_message_constant:
  "k \<in> set [ProxyGetPrototypeOfInvalid, ProxyGetPrototypeOfNonExtensible, ProxyOwnKeysNonExtensible,
              ProxyOwnKeysDuplicateEntries, ProxyPreventExtensionsExtensible,
              ProxySetPrototypeOfNonExtensible]
   \<Longrightarrow> proxy_message inspect k p = proxy_message inspect' k p'"
  by (cases k) simp_all

lemma proxy_message_prints:
  "k \<notin> set [ProxyGetPrototypeOfInvalid, ProxyGetPrototypeOfNonExtensible, ProxyOwnKeysNonExtensible,
              ProxyOwnKeysDuplicateEntries, ProxyPreventExtensionsExtensible,
              ProxySetPrototypeOfNonExtensible]
   \<Longrightarrow> sublist (msg_i inspect p) (proxy_message inspect k p)"
  by (cases k) (simp_all only: proxy_message.simps sublist_appendI, simp_all)

lemma proxy_message_argument_inj:
  "k \<notin> set [ProxyGetPrototypeOfInvalid, ProxyGetPrototypeOfNonExtensible, ProxyOwnKeysNonExtensible,
              ProxyOwnKeysDuplicateEntries, ProxyPreventExtensionsExtensible,
              ProxySetPrototypeOfNonExtensible]
   \<Longrightarrow> proxy_message inspect k p = proxy_message inspect k p'
   \<Longrightarrow> msg_i inspect p = msg_i inspect p'"
  by (cases k) simp_all

lemma proxy_message_constant_iff:
  "(\<forall>q q'. proxy_message inspect k q = proxy_message inspect k q')
   = (k \<in> set [ProxyGetPrototypeOfInvalid, ProxyGetPrototypeOfNonExtensible, ProxyOwnKeysNonExtensible,
               ProxyOwnKeysDuplicateEntries, ProxyPreventExtensionsExtensible,
               ProxySetPrototypeOfNonExtensible])"
  (is "?L = ?R")
proof
  assume l: ?L
  show ?R
  proof (rule ccontr)
    assume "\<not> ?R"
    moreover from l have "proxy_message inspect k (H ''a'') = proxy_message inspect k (H ''b'')"
      by blast
    ultimately have "msg_i inspect (H ''a'') = msg_i inspect (H ''b'')"
      by (rule proxy_message_argument_inj)
    then show False by (simp add: msg_i_def)
  qed
next
  assume ?R
  then show ?L by (blast intro: proxy_message_constant)
qed

text \<open>
  C8, as the code has it. The catalogue has one message constructor for every kind of
  violation of a Proxy invariant, identified by its name. Every message begins with the
  name of the violated trap in quotes, and the messages of two different constructors
  never coincide, whatever their arguments are. Six constructors take no argument and
  give a fixed message: the two of \<open>getPrototypeOf\<close>, those of \<open>preventExtensions\<close> and
  \<open>setPrototypeOf\<close>, and the two of \<open>ownKeys\<close> for extra keys and for duplicate entries;
  these six are the only ones whose message does not change with the argument. The
  message of every other constructor contains its argument as \<open>inspect\<close> prints it (a host
  string as it is), and arguments printed differently give different messages: the
  argument is the key of the property for all of them but \<open>ProxyIsExtensibleInconsistent\<close>,
  whose argument is the extensibility of the target.
\<close>

theorem proxy_message_identifies:
  "prefix ([CHR 0x27] @ trap_of k @ [CHR 0x27] @ '' on proxy: '') (proxy_message inspect k p)
   \<and> (proxy_message inspect k p = proxy_message inspect k' p' \<longrightarrow> k = k')
   \<and> ((\<forall>q q'. proxy_message inspect k q = proxy_message inspect k q')
        = (k \<in> set [ProxyGetPrototypeOfInvalid, ProxyGetPrototypeOfNonExtensible,
                    ProxyOwnKeysNonExtensible, ProxyOwnKeysDuplicateEntries,
                    ProxyPreventExtensionsExtensible, ProxySetPrototypeOfNonExtensible]))
   \<and> (k \<notin> set [ProxyGetPrototypeOfInvalid, ProxyGetPrototypeOfNonExtensible,
                 ProxyOwnKeysNonExtensible, ProxyOwnKeysDuplicateEntries,
                 ProxyPreventExtensionsExtensible, ProxySetPrototypeOfNonExtensible]
        \<longrightarrow> sublist (inspect v) (proxy_message inspect k (V v))
            \<and> sublist s (proxy_message inspect k (H s))
            \<and> (proxy_message inspect k (V v) = proxy_message inspect k (V v') \<longrightarrow> inspect v = inspect v')
            \<and> (proxy_message inspect k (H s) = proxy_message inspect k (H s') \<longrightarrow> s = s'))"
proof (intro conjI impI)
  show "prefix ([CHR 0x27] @ trap_of k @ [CHR 0x27] @ '' on proxy: '') (proxy_message inspect k p)"
    by (rule proxy_message_trap)
  show "k = k'" if "proxy_message inspect k p = proxy_message inspect k' p'"
    using that by (rule proxy_message_inj)
  show "(\<forall>q q'. proxy_message inspect k q = proxy_message inspect k q')
        = (k \<in> set [ProxyGetPrototypeOfInvalid, ProxyGetPrototypeOfNonExtensible,
                    ProxyOwnKeysNonExtensible, ProxyOwnKeysDuplicateEntries,
                    ProxyPreventExtensionsExtensible, ProxySetPrototypeOfNonExtensible])"
    by (rule proxy_message_constant_iff)
next
  assume n: "k \<notin> set [ProxyGetPrototypeOfInvalid, ProxyGetPrototypeOfNonExtensible,
                 ProxyOwnKeysNonExtensible, ProxyOwnKeysDuplicateEntries,
                 ProxyPreventExtensionsExtensible, ProxySetPrototypeOfNonExtensible]"
  show "sublist (inspect v) (proxy_message inspect k (V v))"
    using proxy_message_prints [OF n, of inspect "V v"] by (simp add: msg_i_def)
  show "sublist s (proxy_message inspect k (H s))"
    using proxy_message_prints [OF n, of inspect "H s"] by (simp add: msg_i_def)
  show "inspect v = inspect v'" if "proxy_message inspect k (V v) = proxy_message inspect k (V v')"
    using proxy_message_argument_inj [OF n that] by (simp add: msg_i_def)
  show "s = s'" if "proxy_message inspect k (H s) = proxy_message inspect k (H s')"
    using proxy_message_argument_inj [OF n that] by (simp add: msg_i_def)
qed

theorem proxy_message_identifies_witness:
  "ProxyOwnKeysMissing \<notin> set [ProxyGetPrototypeOfInvalid, ProxyGetPrototypeOfNonExtensible,
                 ProxyOwnKeysNonExtensible, ProxyOwnKeysDuplicateEntries,
                 ProxyPreventExtensionsExtensible, ProxySetPrototypeOfNonExtensible]
   \<and> prefix ([CHR 0x27] @ ''ownKeys'' @ [CHR 0x27] @ '' on proxy: '')
        (proxy_message (\<lambda>v. case v of String s \<Rightarrow> s | _ \<Rightarrow> ''?'') ProxyOwnKeysMissing (V (String ''a'')))
   \<and> sublist ''a''
        (proxy_message (\<lambda>v. case v of String s \<Rightarrow> s | _ \<Rightarrow> ''?'') ProxyOwnKeysMissing (V (String ''a'')))
   \<and> proxy_message (\<lambda>v. case v of String s \<Rightarrow> s | _ \<Rightarrow> ''?'') ProxyOwnKeysMissing (V (String ''a''))
       \<noteq> proxy_message (\<lambda>v. case v of String s \<Rightarrow> s | _ \<Rightarrow> ''?'') ProxyOwnKeysMissing (V (String ''b''))
   \<and> proxy_message (\<lambda>v. case v of String s \<Rightarrow> s | _ \<Rightarrow> ''?'') ProxyOwnKeysMissing (V (String ''a''))
       \<noteq> proxy_message (\<lambda>v. case v of String s \<Rightarrow> s | _ \<Rightarrow> ''?'') ProxyHasNonConfigurable (V (String ''a''))"
proof -
  let ?i = "\<lambda>v. case v of String s \<Rightarrow> s | _ \<Rightarrow> ''?''"
  have n: "ProxyOwnKeysMissing \<notin> set [ProxyGetPrototypeOfInvalid, ProxyGetPrototypeOfNonExtensible,
                 ProxyOwnKeysNonExtensible, ProxyOwnKeysDuplicateEntries,
                 ProxyPreventExtensionsExtensible, ProxySetPrototypeOfNonExtensible]"
    by simp
  note t = proxy_message_identifies [where k = ProxyOwnKeysMissing and inspect = ?i
      and p = "V (String ''a'')" and k' = ProxyHasNonConfigurable and p' = "V (String ''a'')"
      and v = "String ''a''" and v' = "String ''b''"]
  from t have a1: "prefix ([CHR 0x27] @ trap_of ProxyOwnKeysMissing @ [CHR 0x27] @ '' on proxy: '')
        (proxy_message ?i ProxyOwnKeysMissing (V (String ''a'')))"
    by (rule conjunct1)
  then have b1: "prefix ([CHR 0x27] @ ''ownKeys'' @ [CHR 0x27] @ '' on proxy: '')
        (proxy_message ?i ProxyOwnKeysMissing (V (String ''a'')))"
    by (simp only: trap_of.simps)
  from t n have a2: "sublist (?i (String ''a'')) (proxy_message ?i ProxyOwnKeysMissing (V (String ''a'')))"
    by blast
  then have b2: "sublist ''a'' (proxy_message ?i ProxyOwnKeysMissing (V (String ''a'')))"
    by (simp only: val.case)
  have d: "?i (String ''a'') \<noteq> ?i (String ''b'')" by simp
  from t n d have b3: "proxy_message ?i ProxyOwnKeysMissing (V (String ''a''))
       \<noteq> proxy_message ?i ProxyOwnKeysMissing (V (String ''b''))"
    by blast
  have "ProxyOwnKeysMissing \<noteq> ProxyHasNonConfigurable" by simp
  with t have b4: "proxy_message ?i ProxyOwnKeysMissing (V (String ''a''))
       \<noteq> proxy_message ?i ProxyHasNonConfigurable (V (String ''a''))"
    by blast
  from n b1 b2 b3 b4 show ?thesis by (intro conjI)
qed

text \<open>
  C8 as the specification has it fails for the two violations of \<open>ownKeys\<close> that concern
  a key the trap should not have returned: whichever key is the duplicate or the extra
  one, the message is the same, so it does not identify the key.
\<close>

theorem proxy_message_ownKeys_counterexample:
  "proxy_message (\<lambda>v. case v of String s \<Rightarrow> s | _ \<Rightarrow> ''?'') ProxyOwnKeysDuplicateEntries (V (String ''a''))
     = proxy_message (\<lambda>v. case v of String s \<Rightarrow> s | _ \<Rightarrow> ''?'') ProxyOwnKeysDuplicateEntries (V (String ''b''))
   \<and> proxy_message (\<lambda>v. case v of String s \<Rightarrow> s | _ \<Rightarrow> ''?'') ProxyOwnKeysNonExtensible (V (String ''a''))
     = proxy_message (\<lambda>v. case v of String s \<Rightarrow> s | _ \<Rightarrow> ''?'') ProxyOwnKeysNonExtensible (V (String ''b''))
   \<and> (case String ''a'' of String s \<Rightarrow> s | _ \<Rightarrow> ''?'') \<noteq> (case String ''b'' of String s \<Rightarrow> s | _ \<Rightarrow> ''?'')
   \<and> proxy_message (\<lambda>v. case v of String s \<Rightarrow> s | _ \<Rightarrow> ''?'') ProxyOwnKeysDuplicateEntries (V (String ''a''))
     = [CHR 0x27] @ ''ownKeys'' @ [CHR 0x27] @ '' on proxy: trap returned duplicate entries''"
  by simp

subsection \<open>Host errors in the DateTimeFormat constructor and methods\<close>

lemma Q_Inr:
  "m st = (Inr x, st') \<Longrightarrow> Q m k st = k x st'"
  by (simp add: Q_def)

lemma Q_Inl:
  "m st = (Inl c, st') \<Longrightarrow> Q m k st = (Inl c, st')"
  by (simp add: Q_def)

lemma Q_ret [simp]: "Q (ret x) k = k x"
  by (rule ext) (simp add: Q_def ret_def)

lemma Q_abrupt [simp]: "Q (abrupt c) k = abrupt c"
  by (rule ext) (simp add: Q_def abrupt_def)

lemma Q_assoc: "Q (Q m f) k = Q m (\<lambda>x. Q (f x) k)"
  by (rule ext) (simp add: Q_def split: prod.splits sum.splits)

lemma Q_eq_Inr:
  "Q m k st = (Inr y, st'') \<longleftrightarrow> (\<exists>x st'. m st = (Inr x, st') \<and> k x st' = (Inr y, st''))"
  by (auto simp: Q_def split: prod.splits sum.splits)




















subsection \<open>The two DateTimeFormat constructors\<close>

lemma quiet_Get:
  "quiet_options E O' s0 \<Longrightarrow> converted E O' s0 s \<Longrightarrow> P \<in> set consulted
     \<Longrightarrow> Get E s O' P = Get E s0 O' P"
  by (simp add: quiet_options_def)

lemma quiet_numeric:
  "quiet_options E O' s0 \<Longrightarrow> converted E O' s0 s
     \<Longrightarrow> ToString E (String ''numeric'') s = (Inr ''numeric'', s)"
  by (simp add: quiet_options_def)

text \<open>The state that a computation leaves when what follows it leaves the state alone.\<close>

lemma Q_state:
  assumes "Q m k s = (x, s')"
    and "\<And>y s1 z s2. k y s1 = (z, s2) \<Longrightarrow> s2 = s1"
  shows "s' = snd (m s)"
proof (cases "m s")
  case (Pair r s1)
  show ?thesis
  proof (cases r)
    case (Inl c)
    with Pair assms(1) show ?thesis by (simp add: Q_def)
  next
    case (Inr y)
    with Pair assms(1) have "k y s1 = (x, s')" by (simp add: Q_def)
    with assms(2) Pair show ?thesis by simp
  qed
qed

text \<open>Reading a consulted option leads to a state a conversion of its value leads to.\<close>

lemma GetOption_state:
  fixes E :: "('st, 'i) env" and s s' :: 'st
  assumes ty: "ty = (if name = ''hour12'' then TBoolean else TString)"
    and nf: "name \<noteq> ''fractionalSecondDigits''"
    and run: "GetOption E O' name ty values dflt s = (x, s')"
  shows "s' = conversion_of E name (Get E s O' name) s"
proof (cases "Get E s O' name = Undefined")
  case True
  with run show ?thesis
    by (auto simp: GetOption_def conversion_of_def ret_def abrupt_def split: default_value.splits)
next
  case False
  let ?check = "\<lambda>v. if (case values of
                      None \<Rightarrow> False
                    | Some vs \<Rightarrow> \<not> list_ex (\<lambda>x. SameValue x v = Boolean True) vs)
               then abrupt (surroundingAgent_Throw ''RangeError'' ''UnsupportedValueForProperty''
                              [V (String name), V v])
               else ret v"
  have check: "s2 = s1" if "?check y s1 = (z, s2)" for y z and s1 s2 :: 'st
    using that by (auto simp: ret_def abrupt_def split: if_splits)
  show ?thesis
  proof (cases "name = ''hour12''")
    case True
    with ty have "ty = TBoolean" by simp
    with run False have "s' = s"
      by (auto simp: GetOption_def Let_def ret_def abrupt_def split: if_splits)
    with True show ?thesis by (simp add: conversion_of_def)
  next
    case h: False
    with ty have "ty = TString" by simp
    with run False
    have "Q (Q (ToString E (Get E s O' name)) (\<lambda>s. ret (String s))) ?check s = (x, s')"
      by (simp add: GetOption_def Let_def)
    then have "s' = snd (Q (ToString E (Get E s O' name)) (\<lambda>s. ret (String s)) s)"
      by (rule Q_state) (rule check)
    moreover obtain a b where ab: "Q (ToString E (Get E s O' name)) (\<lambda>s. ret (String s)) s = (a, b)"
      by (cases "Q (ToString E (Get E s O' name)) (\<lambda>s. ret (String s)) s")
    then have "b = snd (ToString E (Get E s O' name) s)"
      by (rule Q_state) (simp add: ret_def)
    ultimately have "s' = snd (ToString E (Get E s O' name) s)" using ab by simp
    with False h nf show ?thesis by (simp add: conversion_of_def)
  qed
qed

lemma hostGetOption_state:
  assumes "ty = (if name = ''hour12'' then TBoolean else TString)"
    and "name \<noteq> ''fractionalSecondDigits''"
    and "hostGetOption E O' name ty values dflt s = (x, s')"
  shows "s' = conversion_of E name (Get E s O' name) s"
  using assms by (auto simp: hostGetOption_def intro: GetOption_state)

lemma GetNumberOption_state:
  assumes "GetNumberOption E O' ''fractionalSecondDigits'' lo hi dflt s = (x, s')"
  shows "s' = conversion_of E ''fractionalSecondDigits'' (Get E s O' ''fractionalSecondDigits'') s"
proof (cases "Get E s O' ''fractionalSecondDigits'' = Undefined")
  case True
  with assms show ?thesis by (simp add: GetNumberOption_def conversion_of_def ret_def)
next
  case False
  with assms have "s' = snd (ToNumber E (Get E s O' ''fractionalSecondDigits'') s)"
    by (auto simp: GetNumberOption_def Let_def ret_def abrupt_def elim!: Q_state split: if_splits)
  with False show ?thesis by (simp add: conversion_of_def)
qed

lemma read_timeZone_state:
  assumes "read_timeZone E O' s = (x, s')"
  shows "s' = conversion_of E ''timeZone'' (Get E s O' ''timeZone'') s"
proof (cases "Get E s O' ''timeZone'' = Undefined")
  case True
  with assms show ?thesis by (simp add: read_timeZone_def conversion_of_def ret_def)
next
  case False
  with assms have "s' = snd (ToString E (Get E s O' ''timeZone'') s)"
    by (auto simp: read_timeZone_def Let_def ret_def abrupt_def elim!: Q_state split: sum.splits)
  with False show ?thesis by (simp add: conversion_of_def)
qed

lemma converted_step:
  assumes "quiet_options E O' s0" and "converted E O' s0 s" and "P \<in> set consulted"
    and "s' = conversion_of E P (Get E s O' P) s"
  shows "converted E O' s0 s'"
  using assms converted.conversion [of E O' s0 s P] by (simp add: quiet_Get)

lemma hostGetOption_converted:
  assumes "quiet_options E O' s0" and "converted E O' s0 s" and "name \<in> set consulted"
    and "ty = (if name = ''hour12'' then TBoolean else TString)"
    and "name \<noteq> ''fractionalSecondDigits''"
    and "hostGetOption E O' name ty values dflt s = (x, s')"
  shows "converted E O' s0 s'"
  using assms(1-3) hostGetOption_state [OF assms(4-6)] by (rule converted_step)

lemma GetNumberOption_converted:
  assumes "quiet_options E O' s0" and "converted E O' s0 s"
    and "GetNumberOption E O' ''fractionalSecondDigits'' lo hi dflt s = (x, s')"
  shows "converted E O' s0 s'"
  using assms(1,2) _ GetNumberOption_state [OF assms(3)]
  by (rule converted_step) (simp add: consulted_def DTF_COMPONENTS_def)

lemma read_timeZone_converted:
  assumes "quiet_options E O' s0" and "converted E O' s0 s"
    and "read_timeZone E O' s = (x, s')"
  shows "converted E O' s0 s'"
  using assms(1,2) _ read_timeZone_state [OF assms(3)]
  by (rule converted_step) (simp add: consulted_def)

lemma bridgeableForHost_undefined [simp]:
  "(bridgeableForHost v = HUndefined) = (v = Undefined)"
  by (cases v) (simp_all add: bridgeableForHost_def)

lemma get_option_set_option:
  "get_option (set_option n x h) P = (if P = n then x else get_option h P)"
  by (induction h) (auto simp: get_option_def)

lemma keys_set_option:
  "map fst (set_option n x h) = (if n \<in> set (map fst h) then map fst h else map fst h @ [n])"
  by (induction h) force+

lemma GetOption_undefined:
  assumes "GetOption E O' name ty values (Default Undefined) st = (Inr v, st')"
  shows "(v = Undefined) = (Get E st O' name = Undefined)"
proof (cases "Get E st O' name = Undefined")
  case True
  with assms show ?thesis by (simp add: GetOption_def ret_def)
next
  case False
  with assms have "v \<noteq> Undefined"
    by (cases ty)
       (auto simp: GetOption_def Let_def Q_eq_Inr ret_def abrupt_def split: if_splits)
  with False show ?thesis by simp
qed

lemma hostGetOption_undefined:
  assumes "hostGetOption E O' name ty values (HostDefault HUndefined) st = (Inr v, st')"
  shows "(v = Undefined) = (Get E st O' name = Undefined)"
  using assms by (simp add: hostGetOption_def new_Value_def GetOption_undefined)

lemma GetNumberOption_undefined:
  assumes "GetNumberOption E O' name lo hi Undefined st = (Inr v, st')"
  shows "(v = Undefined) = (Get E st O' name = Undefined)"
  using assms
  by (auto simp: GetNumberOption_def Let_def Q_eq_Inr ret_def abrupt_def split: if_splits)

lemma component_consulted:
  "(n, vs) \<in> set DTF_COMPONENTS \<Longrightarrow> n \<in> set consulted \<and> n \<noteq> ''hour12''"
  by (auto simp: consulted_def DTF_COMPONENTS_def)

text \<open>One step of the loop over the components leads to a converted state.\<close>

lemma component_converted:
  assumes q: "quiet_options E O' s0" and c: "converted E O' s0 s"
    and n: "(n, vs) \<in> set DTF_COMPONENTS"
    and step: "(if n = ''fractionalSecondDigits''
        then GetNumberOption E O' n double_1 double_3 Undefined
        else hostGetOption E O' n TString (Some vs) (HostDefault HUndefined)) s = (x, s')"
  shows "converted E O' s0 s'"
proof (cases "n = ''fractionalSecondDigits''")
  case True
  with step show ?thesis by (auto intro: GetNumberOption_converted [OF q c])
next
  case False
  from n have "n \<in> set consulted" "n \<noteq> ''hour12''" by (simp_all add: component_consulted)
  with False step show ?thesis
    by (auto intro: hostGetOption_converted [OF q c])
qed

text \<open>
  The loop over the components: when it has gone through, the state is a converted one,
  a component is \<open>undefined\<close> in the host options exactly when the options object has
  \<open>undefined\<close> for it, and the other properties of the host options are as before.
\<close>

lemma read_components_reads:
  assumes q: "quiet_options E O' s0"
    and "converted E O' s0 s"
    and "set cs \<subseteq> set DTF_COMPONENTS"
    and "read_components E O' cs (h, e) s = (Inr (h', e'), s')"
  shows "converted E O' s0 s'
         \<and> (\<forall>P. (get_option h' P = HUndefined)
                = (if P \<in> set (map fst cs) then Get E s0 O' P = Undefined
                   else get_option h P = HUndefined))
         \<and> map fst h' = fold (\<lambda>n ks. if n \<in> set ks then ks else ks @ [n]) (map fst cs) (map fst h)"
  using assms(2-)
proof (induction cs arbitrary: h e s)
  case Nil
  then show ?case by (simp add: ret_def)
next
  case (Cons c cs)
  obtain n vs where c: "c = (n, vs)" by (cases c)
  let ?step = "if n = ''fractionalSecondDigits''
        then GetNumberOption E O' n double_1 double_3 Undefined
        else hostGetOption E O' n TString (Some vs) (HostDefault HUndefined)"
  from Cons.prems(3) c obtain v s1 where
    step: "?step s = (Inr v, s1)"
    and rest: "read_components E O' cs
                 (set_option n (bridgeableForHost v) h, if v \<noteq> Undefined then True else e) s1
               = (Inr (h', e'), s')"
    by (auto simp: Q_eq_Inr)
  from Cons.prems(2) c have n: "(n, vs) \<in> set DTF_COMPONENTS" and cs: "set cs \<subseteq> set DTF_COMPONENTS"
    by simp_all
  have c1: "converted E O' s0 s1"
    by (rule component_converted [OF q Cons.prems(1) n step])
  from n have "n \<in> set consulted" by (simp add: component_consulted)
  then have g: "Get E s O' n = Get E s0 O' n"
    by (rule quiet_Get [OF q Cons.prems(1)])
  from step have u: "(v = Undefined) = (Get E s0 O' n = Undefined)"
    unfolding g [symmetric]
    by (auto dest: GetNumberOption_undefined hostGetOption_undefined split: if_splits)
  note IH = Cons.IH [OF c1 cs rest]
  from IH have "converted E O' s0 s'" by blast
  moreover have "\<forall>P. (get_option h' P = HUndefined)
                = (if P \<in> set (map fst (c # cs)) then Get E s0 O' P = Undefined
                   else get_option h P = HUndefined)"
    using IH u c by (auto simp: get_option_set_option)
  moreover have "map fst h' = fold (\<lambda>n ks. if n \<in> set ks then ks else ks @ [n]) (map fst (c # cs)) (map fst h)"
    using IH c by (simp add: keys_set_option)
  ultimately show ?case by blast
qed

lemma follows_guest_Q:
  assumes "follows_guest S m1 m2 st"
    and "\<And>x y st'. m1 st = (Inr x, st') \<Longrightarrow> S x y \<Longrightarrow> follows_guest R (k1 x) (k2 y) st'"
  shows "follows_guest R (Q m1 k1) (Q m2 k2) st"
proof (cases "m1 st")
  case (Pair r st')
  show ?thesis
  proof (cases r)
    case (Inl c)
    with Pair assms(1) show ?thesis by (simp add: follows_guest_def Q_def)
  next
    case (Inr x)
    with Pair assms(1) obtain y where y: "m2 st = (Inr y, st')" "S x y"
      by (auto simp: follows_guest_def)
    from assms(2) [OF _ y(2)] Pair Inr have "follows_guest R (k1 x) (k2 y) st'" by simp
    moreover from Pair Inr have "Q m1 k1 st = k1 x st'" by (simp add: Q_Inr)
    moreover from y have "Q m2 k2 st = k2 y st'" by (simp add: Q_Inr)
    ultimately show ?thesis by (simp add: follows_guest_def split: prod.splits sum.splits)
  qed
qed

lemma follows_guest_same: "follows_guest (=) m m st"
  by (auto simp: follows_guest_def split: prod.splits sum.splits)

lemma follows_guest_ret: "R x y \<Longrightarrow> follows_guest R (ret x) (ret y) st"
  by (simp add: follows_guest_def ret_def)

lemma follows_guest_abrupt: "follows_guest R (abrupt c) (abrupt c) st"
  by (simp add: follows_guest_def abrupt_def)

text \<open>Reading an option depends on the options object through \<open>Get\<close> of that option only.\<close>

lemma GetOption_cong:
  assumes "\<And>st. Get E st O2 name = Get E st O1 name"
  shows "GetOption E O2 name = GetOption E O1 name"
  by (intro ext) (simp add: GetOption_def assms)

lemma hostGetOption_cong:
  assumes "\<And>st. Get E st O2 name = Get E st O1 name"
  shows "hostGetOption E O2 name = hostGetOption E O1 name"
  by (intro ext) (simp add: hostGetOption_def GetOption_cong [OF assms])

lemma GetNumberOption_cong:
  assumes "\<And>st. Get E st O2 name = Get E st O1 name"
  shows "GetNumberOption E O2 name = GetNumberOption E O1 name"
  by (intro ext) (simp add: GetNumberOption_def assms)

lemma read_timeZone_cong:
  assumes "\<And>st. Get E st O2 ''timeZone'' = Get E st O1 ''timeZone''"
  shows "read_timeZone E O2 = read_timeZone E O1"
  by (intro ext) (simp add: read_timeZone_def assms)

lemma read_components_cong:
  assumes "\<And>st P. Get E st O2 P = Get E st O1 P"
  shows "read_components E O2 cs acc = read_components E O1 cs acc"
proof (induction cs arbitrary: acc)
  case Nil
  show ?case by simp
next
  case (Cons c cs)
  obtain n vs where c: "c = (n, vs)" by (cases c)
  obtain h e where acc: "acc = (h, e)" by (cases acc)
  show ?case
    unfolding c acc read_components.simps
    by (simp only: Cons.IH hostGetOption_cong [of E O2 _ O1, OF assms]
        GetNumberOption_cong [of E O2 _ O1, OF assms])
qed

lemma InitializeDateTimeFormat_cong:
  assumes "\<And>st P. Get E st O2 P = Get E st O1 P"
  shows "InitializeDateTimeFormat E O2 = InitializeDateTimeFormat E O1"
  unfolding InitializeDateTimeFormat_def
  by (simp only: hostGetOption_cong [of E O2 _ O1, OF assms] read_timeZone_cong [of E O2 O1, OF assms]
      read_components_cong [of E O2 O1, OF assms])

lemma follows_guest_refl: "(\<And>x. R x x) \<Longrightarrow> follows_guest R m m st"
  by (auto simp: follows_guest_def split: prod.splits sum.splits)

lemma follows_guest_Q_same:
  assumes "Inv st"
    and "\<And>st x st'. Inv st \<Longrightarrow> m st = (Inr x, st') \<Longrightarrow> Inv st'"
    and "\<And>x st. Inv st \<Longrightarrow> follows_guest R (k1 x) (k2 x) st"
  shows "follows_guest R (Q m k1) (Q m k2) st"
proof (rule follows_guest_Q [OF follows_guest_same])
  fix x y st' assume "m st = (Inr x, st')" "x = y"
  with assms(1,2) have "Inv st'" by blast
  with \<open>x = y\<close> show "follows_guest R (k1 x) (k2 y) st'" by (simp add: assms(3))
qed

lemma follows_guest_if:
  assumes "\<not> b \<Longrightarrow> follows_guest R k1 k2 st"
  shows "follows_guest R (if b then abrupt c else k1) (if b then abrupt c else k2) st"
  using assms by (simp add: follows_guest_abrupt)

lemma numeric_date_set_option:
  "numeric_date (set_option n x h)
     = set_option n (if n \<in> set [''year'', ''month'', ''day''] then HString ''numeric'' else x)
         (numeric_date h)"
  by (induction h) (auto simp: numeric_date_def)

lemma get_option_numeric_date:
  "P \<notin> set [''year'', ''month'', ''day''] \<Longrightarrow> get_option (numeric_date h) P = get_option h P"
  by (induction h) (auto simp: numeric_date_def get_option_def)

lemma set_option_distinct:
  "distinct (map fst h) \<Longrightarrow> n \<in> set (map fst h)
     \<Longrightarrow> set_option n x h = map (\<lambda>(k, y). (k, if k = n then x else y)) h"
proof (induction h)
  case Nil
  then show ?case by simp
next
  case (Cons p h)
  obtain k y where p: "p = (k, y)" by (cases p)
  show ?case
  proof (cases "k = n")
    case True
    with Cons.prems p have "n \<notin> fst ` set h" by auto
    then have "map (\<lambda>(k, y). (k, if k = n then x else y)) h = h"
      by (induction h) auto
    with True p show ?thesis by simp
  next
    case False
    with Cons p show ?thesis by auto
  qed
qed

lemma keys_map_values: "map fst (map (\<lambda>(k, y). (k, f k y)) h) = map fst h"
  by (induction h) auto

lemma fold_numeric_date:
  assumes "distinct (map fst h)"
    and "''year'' \<in> set (map fst h)" "''month'' \<in> set (map fst h)" "''day'' \<in> set (map fst h)"
  shows "fold (\<lambda>prop. set_option prop (HString ''numeric'')) [''year'', ''month'', ''day''] h
           = numeric_date h"
proof -
  let ?f = "\<lambda>n. map (\<lambda>(k, y). (k, if k = n then HString ''numeric'' else y))"
  have 1: "set_option ''year'' (HString ''numeric'') h = ?f ''year'' h"
    using assms by (simp add: set_option_distinct)
  have 2: "set_option ''month'' (HString ''numeric'') (?f ''year'' h) = ?f ''month'' (?f ''year'' h)"
    using assms by (intro set_option_distinct) (simp_all only: keys_map_values)
  have 3: "set_option ''day'' (HString ''numeric'') (?f ''month'' (?f ''year'' h))
             = ?f ''day'' (?f ''month'' (?f ''year'' h))"
    using assms by (intro set_option_distinct) (simp_all only: keys_map_values)
  have "?f ''day'' (?f ''month'' (?f ''year'' h)) = numeric_date h"
    by (induction h) (auto simp: numeric_date_def)
  with 1 2 3 show ?thesis by simp
qed

lemma SameValue_String [simp]: "SameValue (String s) (String t) = Boolean (s = t)"
  by (simp add: SameValue_def)

text \<open>
  The loop over the components on an options object that has \<open>"numeric"\<close> for \<open>year\<close>,
  \<open>month\<close> and \<open>day\<close> and is the first object otherwise, where the first object has
  \<open>undefined\<close> for the three.
\<close>

lemma read_components_defaults:
  assumes q: "quiet_options E O1 s0"
    and R: "\<And>st P. Get E st O2 P
              = (if P \<in> set [''year'', ''month'', ''day''] then String ''numeric'' else Get E st O1 P)"
    and U: "\<forall>P \<in> set [''year'', ''month'', ''day'']. Get E s0 O1 P = Undefined"
    and cs: "set cs \<subseteq> set DTF_COMPONENTS"
    and c: "converted E O1 s0 s"
  shows "follows_guest (\<lambda>x y. fst y = numeric_date (fst x))
           (read_components E O1 cs (h, e1)) (read_components E O2 cs (numeric_date h, e2)) s"
  using cs c
proof (induction cs arbitrary: h e1 e2 s)
  case Nil
  show ?case by (simp add: follows_guest_ret)
next
  case (Cons c cs)
  obtain n vs where c: "c = (n, vs)" by (cases c)
  from Cons.prems(1) c have n: "(n, vs) \<in> set DTF_COMPONENTS" and cs: "set cs \<subseteq> set DTF_COMPONENTS"
    by simp_all
  note conv = Cons.prems(2)
  let ?step = "\<lambda>O'. if n = ''fractionalSecondDigits''
        then GetNumberOption E O' n double_1 double_3 Undefined
        else hostGetOption E O' n TString (Some vs) (HostDefault HUndefined)"
  let ?S = "\<lambda>v1 v2. bridgeableForHost v2
              = (if n \<in> set [''year'', ''month'', ''day''] then HString ''numeric'' else bridgeableForHost v1)"
  have step: "follows_guest ?S (?step O1) (?step O2) s"
  proof (cases "n \<in> set [''year'', ''month'', ''day'']")
    case True
    with n have vs: "HString ''numeric'' \<in> set vs"
      by (auto simp: DTF_COMPONENTS_def INTL_NUMERIC_OPTION_VALUES_def)
    from n have "n \<in> set consulted" by (simp add: component_consulted)
    then have "Get E s O1 n = Get E s0 O1 n" by (rule quiet_Get [OF q conv])
    with True U have u: "Get E s O1 n = Undefined" by auto
    from True have nf: "n \<noteq> ''fractionalSecondDigits''" by auto
    from u have 1: "?step O1 s = (Inr Undefined, s)"
      using nf by (simp add: hostGetOption_def GetOption_def new_Value_def ret_def)
    have ex: "list_ex (\<lambda>x. SameValue x (String ''numeric'') = Boolean True) (map new_Value vs)"
      unfolding list_ex_iff using vs by (force simp: new_Value_def)
    have ts: "Q (ToString E (String ''numeric'')) (\<lambda>s. ret (String s)) s = (Inr (String ''numeric''), s)"
      by (simp add: Q_Inr [where m = "ToString E (String ''numeric'')", OF quiet_numeric [OF q conv]]
          ret_def)
    from ex have 2: "?step O2 s = (Inr (String ''numeric''), s)"
      using nf True
      by (simp add: hostGetOption_def GetOption_def R
          Q_Inr [where m = "Q (ToString E (String ''numeric'')) (\<lambda>s. ret (String s))", OF ts] ret_def)
    from 1 2 True show ?thesis by (simp add: follows_guest_def bridgeableForHost_def)
  next
    case False
    then have g: "\<And>st. Get E st O2 n = Get E st O1 n" by (simp add: R)
    have "?step O2 = ?step O1"
      by (simp only: hostGetOption_cong [of E O2 n O1, OF g] GetNumberOption_cong [of E O2 n O1, OF g])
    with False show ?thesis by (simp add: follows_guest_refl)
  qed
  show ?case
    unfolding c read_components.simps
  proof (rule follows_guest_Q [OF step])
    fix x y s'
    assume s1: "?step O1 s = (Inr x, s')" and S: "?S x y"
    have conv': "converted E O1 s0 s'"
      by (rule component_converted [OF q conv n s1])
    have "set_option n (bridgeableForHost y) (numeric_date h)
            = numeric_date (set_option n (bridgeableForHost x) h)"
      using S by (simp only: numeric_date_set_option)
    with Cons.IH [OF cs conv']
    show "follows_guest (\<lambda>x y. fst y = numeric_date (fst x))
            (read_components E O1 cs
               (set_option n (bridgeableForHost x) h, if x \<noteq> Undefined then True else e1))
            (read_components E O2 cs
               (set_option n (bridgeableForHost y) (numeric_date h), if y \<noteq> Undefined then True else e2))
            s'"
      by simp
  qed
qed

lemma InitializeDateTimeFormat_steps:
  assumes "InitializeDateTimeFormat E O' st = (Inr (ho, he), st')"
  obtains lm st1 cal st2 ns st3 h12 st4 hc st5 tz st6 h st7 fm st8 ds st9 ts where
    "hostGetOption E O' ''localeMatcher'' TString
       (Some [HString ''lookup'', HString ''best fit'']) (HostDefault (HString ''best fit'')) st = (Inr lm, st1)"
    "hostGetOption E O' ''calendar'' TString None (HostDefault HUndefined) st1 = (Inr cal, st2)"
    "hostGetOption E O' ''numberingSystem'' TString None (HostDefault HUndefined) st2 = (Inr ns, st3)"
    "hostGetOption E O' ''hour12'' TBoolean None (HostDefault HUndefined) st3 = (Inr h12, st4)"
    "hostGetOption E O' ''hourCycle'' TString
       (Some [HString ''h11'', HString ''h12'', HString ''h23'', HString ''h24''])
       (HostDefault HUndefined) st4 = (Inr hc, st5)"
    "read_timeZone E O' st5 = (Inr tz, st6)"
    "read_components E O' DTF_COMPONENTS
          ([(''localeMatcher'', bridgeableForHost lm),
            (''calendar'', bridgeableForHost cal),
            (''numberingSystem'', bridgeableForHost ns),
            (''hour12'', bridgeableForHost h12),
            (''hourCycle'', bridgeableForHost hc),
            (''timeZone'', bridgeableForHost tz)], False) st6 = (Inr (h, he), st7)"
    "hostGetOption E O' ''formatMatcher'' TString
          (Some [HString ''basic'', HString ''best fit'']) (HostDefault (HString ''best fit'')) st7 = (Inr fm, st8)"
    "hostGetOption E O' ''dateStyle'' TString
          (Some [HString ''full'', HString ''long'', HString ''medium'', HString ''short''])
          (HostDefault HUndefined) st8 = (Inr ds, st9)"
    "hostGetOption E O' ''timeStyle'' TString
          (Some [HString ''full'', HString ''long'', HString ''medium'', HString ''short''])
          (HostDefault HUndefined) st9 = (Inr ts, st')"
    "ho = set_option ''timeStyle'' (bridgeableForHost ts)
            (set_option ''dateStyle'' (bridgeableForHost ds)
               (set_option ''formatMatcher'' (bridgeableForHost fm) h))"
  using assms unfolding InitializeDateTimeFormat_def
  by (auto simp: Q_eq_Inr abrupt_def ret_def split: if_splits)


text \<open>
  When the options have been read, a component, \<open>dateStyle\<close> or \<open>timeStyle\<close> is
  \<open>undefined\<close> in the host options exactly when the options object had \<open>undefined\<close>
  for it, and the host options have their twenty properties.
\<close>

lemma InitializeDateTimeFormat_reads:
  assumes q: "quiet_options E O' s0"
    and c0: "converted E O' s0 st"
    and init: "InitializeDateTimeFormat E O' st = (Inr (ho, he), st')"
  shows "\<forall>P \<in> set (map fst DTF_COMPONENTS @ [''dateStyle'', ''timeStyle'']).
           (get_option ho P = HUndefined) = (Get E s0 O' P = Undefined)"
    and "map fst ho =
           [''localeMatcher'', ''calendar'', ''numberingSystem'', ''hour12'', ''hourCycle'', ''timeZone'']
           @ map fst DTF_COMPONENTS @ [''formatMatcher'', ''dateStyle'', ''timeStyle'']"
proof -
  from init obtain lm st1 cal st2 ns st3 h12 st4 hc st5 tz st6 h st7 fm st8 ds st9 ts where
    s1: "hostGetOption E O' ''localeMatcher'' TString
       (Some [HString ''lookup'', HString ''best fit'']) (HostDefault (HString ''best fit'')) st = (Inr lm, st1)"
    and s2: "hostGetOption E O' ''calendar'' TString None (HostDefault HUndefined) st1 = (Inr cal, st2)"
    and s3: "hostGetOption E O' ''numberingSystem'' TString None (HostDefault HUndefined) st2 = (Inr ns, st3)"
    and s4: "hostGetOption E O' ''hour12'' TBoolean None (HostDefault HUndefined) st3 = (Inr h12, st4)"
    and s5: "hostGetOption E O' ''hourCycle'' TString
       (Some [HString ''h11'', HString ''h12'', HString ''h23'', HString ''h24''])
       (HostDefault HUndefined) st4 = (Inr hc, st5)"
    and s6: "read_timeZone E O' st5 = (Inr tz, st6)"
    and s7: "read_components E O' DTF_COMPONENTS
          ([(''localeMatcher'', bridgeableForHost lm),
            (''calendar'', bridgeableForHost cal),
            (''numberingSystem'', bridgeableForHost ns),
            (''hour12'', bridgeableForHost h12),
            (''hourCycle'', bridgeableForHost hc),
            (''timeZone'', bridgeableForHost tz)], False) st6 = (Inr (h, he), st7)"
    and s8: "hostGetOption E O' ''formatMatcher'' TString
          (Some [HString ''basic'', HString ''best fit'']) (HostDefault (HString ''best fit'')) st7 = (Inr fm, st8)"
    and s9: "hostGetOption E O' ''dateStyle'' TString
          (Some [HString ''full'', HString ''long'', HString ''medium'', HString ''short''])
          (HostDefault HUndefined) st8 = (Inr ds, st9)"
    and s10: "hostGetOption E O' ''timeStyle'' TString
          (Some [HString ''full'', HString ''long'', HString ''medium'', HString ''short''])
          (HostDefault HUndefined) st9 = (Inr ts, st')"
    and ho: "ho = set_option ''timeStyle'' (bridgeableForHost ts)
            (set_option ''dateStyle'' (bridgeableForHost ds)
               (set_option ''formatMatcher'' (bridgeableForHost fm) h))"
    by (rule InitializeDateTimeFormat_steps)
  have hc: "converted E O' s0 t'"
    if "converted E O' s0 t" "name \<in> set consulted"
      "name \<noteq> ''fractionalSecondDigits'' \<and> name \<noteq> ''hour12''"
      "hostGetOption E O' name TString vs dflt t = (x, t')"
    for t t' name vs dflt x
    using q that(1,2) _ _ that(4) by (rule hostGetOption_converted) (simp_all add: that(3))
  have c1: "converted E O' s0 st1" using c0 _ _ s1 by (rule hc) (simp_all add: consulted_def)
  have c2: "converted E O' s0 st2" using c1 _ _ s2 by (rule hc) (simp_all add: consulted_def)
  have c3: "converted E O' s0 st3" using c2 _ _ s3 by (rule hc) (simp_all add: consulted_def)
  have c4: "converted E O' s0 st4"
    using q c3 _ _ _ s4 by (rule hostGetOption_converted) (simp_all add: consulted_def)
  have c5: "converted E O' s0 st5" using c4 _ _ s5 by (rule hc) (simp_all add: consulted_def)
  have c6: "converted E O' s0 st6" by (rule read_timeZone_converted [OF q c5 s6])
  note loop = read_components_reads [OF q c6 subset_refl s7]
  from loop have c7: "converted E O' s0 st7" by blast
  have c8: "converted E O' s0 st8" using c7 _ _ s8 by (rule hc) (simp_all add: consulted_def)
  have c9: "converted E O' s0 st9" using c8 _ _ s9 by (rule hc) (simp_all add: consulted_def)
  have c10: "converted E O' s0 st'" using c9 _ _ s10 by (rule hc) (simp_all add: consulted_def)
  have ds: "(ds = Undefined) = (Get E s0 O' ''dateStyle'' = Undefined)"
    using hostGetOption_undefined [OF s9] quiet_Get [OF q c8, of "''dateStyle''"]
    by (simp add: consulted_def)
  have ts: "(ts = Undefined) = (Get E s0 O' ''timeStyle'' = Undefined)"
    using hostGetOption_undefined [OF s10] quiet_Get [OF q c9, of "''timeStyle''"]
    by (simp add: consulted_def)
  have comp: "\<forall>P \<in> set (map fst DTF_COMPONENTS).
           (get_option h P = HUndefined) = (Get E s0 O' P = Undefined)"
    using loop by simp
  have names: "''formatMatcher'' \<notin> set (map fst DTF_COMPONENTS)"
    "''dateStyle'' \<notin> set (map fst DTF_COMPONENTS)" "''timeStyle'' \<notin> set (map fst DTF_COMPONENTS)"
    by (simp_all add: DTF_COMPONENTS_def)
  show "\<forall>P \<in> set (map fst DTF_COMPONENTS @ [''dateStyle'', ''timeStyle'']).
           (get_option ho P = HUndefined) = (Get E s0 O' P = Undefined)"
  proof
    fix P
    assume "P \<in> set (map fst DTF_COMPONENTS @ [''dateStyle'', ''timeStyle''])"
    then consider (c) "P \<in> set (map fst DTF_COMPONENTS)" | (d) "P = ''dateStyle''" | (t) "P = ''timeStyle''"
      by auto
    then show "(get_option ho P = HUndefined) = (Get E s0 O' P = Undefined)"
    proof cases
      case c
      with names have "P \<noteq> ''formatMatcher''" "P \<noteq> ''dateStyle''" "P \<noteq> ''timeStyle''"
        by blast+
      moreover from c comp have "(get_option h P = HUndefined) = (Get E s0 O' P = Undefined)"
        by blast
      ultimately show ?thesis unfolding ho by (simp add: get_option_set_option)
    next
      case d
      with ds show ?thesis unfolding ho by (simp add: get_option_set_option)
    next
      case t
      with ts show ?thesis unfolding ho by (simp add: get_option_set_option)
    qed
  qed
  from loop have "map fst h =
           [''localeMatcher'', ''calendar'', ''numberingSystem'', ''hour12'', ''hourCycle'', ''timeZone'']
           @ map fst DTF_COMPONENTS"
    by (simp add: DTF_COMPONENTS_def)
  then show "map fst ho =
           [''localeMatcher'', ''calendar'', ''numberingSystem'', ''hour12'', ''hourCycle'', ''timeZone'']
           @ map fst DTF_COMPONENTS @ [''formatMatcher'', ''dateStyle'', ''timeStyle'']"
    unfolding ho by (simp add: keys_set_option DTF_COMPONENTS_def)
qed

text \<open>
  Reading the options from an object that has \<open>"numeric"\<close> for \<open>year\<close>, \<open>month\<close> and
  \<open>day\<close> and is the first object otherwise, where the first object has \<open>undefined\<close> for
  the three: the host options are those read from the first object with the three set to
  \<open>"numeric"\<close>.
\<close>

lemma InitializeDateTimeFormat_defaults:
  assumes q: "quiet_options E O1 s0"
    and R: "\<And>st P. Get E st O2 P
              = (if P \<in> set [''year'', ''month'', ''day''] then String ''numeric'' else Get E st O1 P)"
    and U: "\<forall>P \<in> set [''year'', ''month'', ''day'']. Get E s0 O1 P = Undefined"
    and c: "converted E O1 s0 st"
  shows "follows_guest (\<lambda>x y. fst y = numeric_date (fst x))
           (InitializeDateTimeFormat E O1) (InitializeDateTimeFormat E O2) st"
proof -
  define Inv where "Inv = converted E O1 s0"
  have inv_host: "Inv s'"
    if "Inv s" "hostGetOption E O1 n ty vs d s = (Inr x, s')" "n \<in> set consulted"
      "n \<noteq> ''fractionalSecondDigits''" "ty = (if n = ''hour12'' then TBoolean else TString)"
    for s s' n ty vs d x
    using q that(1) [unfolded Inv_def] that(3,5,4,2) unfolding Inv_def
    by (rule hostGetOption_converted)
  have inv_tz: "Inv s'" if "Inv s" "read_timeZone E O1 s = (Inr x, s')" for s s' x
    using q that(1) [unfolded Inv_def] that(2) unfolding Inv_def by (rule read_timeZone_converted)
  have inv_loop: "Inv s'" if "Inv s" "read_components E O1 DTF_COMPONENTS (h, e) s = (Inr x, s')"
    for s s' h e x
  proof -
    from that(2) have "read_components E O1 DTF_COMPONENTS (h, e) s = (Inr (fst x, snd x), s')"
      by simp
    from read_components_reads [OF q that(1) [unfolded Inv_def] subset_refl this]
    show ?thesis by (simp add: Inv_def)
  qed
  have g: "Get E s O2 n = Get E s O1 n" if "n \<notin> set [''year'', ''month'', ''day'']" for n s
    using that by (simp add: R)
  have eqs:
    "hostGetOption E O2 ''localeMatcher'' = hostGetOption E O1 ''localeMatcher''"
    "hostGetOption E O2 ''calendar'' = hostGetOption E O1 ''calendar''"
    "hostGetOption E O2 ''numberingSystem'' = hostGetOption E O1 ''numberingSystem''"
    "hostGetOption E O2 ''hour12'' = hostGetOption E O1 ''hour12''"
    "hostGetOption E O2 ''hourCycle'' = hostGetOption E O1 ''hourCycle''"
    "hostGetOption E O2 ''formatMatcher'' = hostGetOption E O1 ''formatMatcher''"
    "hostGetOption E O2 ''dateStyle'' = hostGetOption E O1 ''dateStyle''"
    "hostGetOption E O2 ''timeStyle'' = hostGetOption E O1 ''timeStyle''"
    "read_timeZone E O2 = read_timeZone E O1"
    by (rule hostGetOption_cong read_timeZone_cong, simp add: g)+
  have loop: "follows_guest (\<lambda>x y. fst y = numeric_date (fst x))
                (read_components E O1 DTF_COMPONENTS (h, False))
                (read_components E O2 DTF_COMPONENTS (h, False)) s"
    if "Inv s" "numeric_date h = h" for h s
    using read_components_defaults [OF q R U subset_refl that(1) [unfolded Inv_def], of h False False]
      that(2)
    by simp
  have "Inv st" using c by (simp add: Inv_def)
  then show ?thesis
    unfolding InitializeDateTimeFormat_def eqs
    apply (rule follows_guest_Q_same [where Inv = Inv])
     apply (erule (1) inv_host; simp add: consulted_def)
    apply (rule follows_guest_Q_same [where Inv = Inv], assumption)
     apply (erule (1) inv_host; simp add: consulted_def)
    apply (rule follows_guest_if)
    apply (rule follows_guest_Q_same [where Inv = Inv], assumption)
     apply (erule (1) inv_host; simp add: consulted_def)
    apply (rule follows_guest_if)
    apply (rule follows_guest_Q_same [where Inv = Inv], assumption)
     apply (erule (1) inv_host; simp add: consulted_def)
    apply (rule follows_guest_Q_same [where Inv = Inv], assumption)
     apply (erule (1) inv_host; simp add: consulted_def)
    apply (rule follows_guest_Q_same [where Inv = Inv], assumption)
     apply (erule (1) inv_tz)
    apply (rule follows_guest_Q [where S = "\<lambda>x y. fst y = numeric_date (fst x)"])
     apply (erule loop)
     apply (simp add: numeric_date_def)
    apply (drule (1) inv_loop)
    apply (clarsimp)
    apply (rule follows_guest_Q_same [where Inv = Inv], assumption)
     apply (erule (1) inv_host; simp add: consulted_def)
    apply (rule follows_guest_Q_same [where Inv = Inv], assumption)
     apply (erule (1) inv_host; simp add: consulted_def)
    apply (rule follows_guest_Q_same [where Inv = Inv], assumption)
     apply (erule (1) inv_host; simp add: consulted_def)
    apply (rule follows_guest_ret)
    apply (simp add: numeric_date_set_option)
    done
qed

lemma same_completion_refl [simp]: "same_completion c c"
proof (cases c)
  case (Throw p)
  then show ?thesis by (cases p) simp_all
qed simp_all

lemma same_result_refl [simp]: "same_result r r"
  by (cases r) simp_all

lemma same_outcome_refl: "same_outcome x x"
  by (simp add: same_outcome_def)

lemma same_outcome_Q:
  assumes "\<And>x st'. m st = (Inr x, st') \<Longrightarrow> same_outcome (k1 x st') (k2 x st')"
  shows "same_outcome (Q m k1 st) (Q m k2 st)"
proof (cases "m st")
  case (Pair r st')
  show ?thesis
  proof (cases r)
    case (Inl c)
    with Pair have "Q m k1 st = (Inl c, st')" "Q m k2 st = (Inl c, st')" by (simp_all add: Q_Inl)
    then show ?thesis by (simp add: same_outcome_def)
  next
    case (Inr x)
    with Pair have "Q m k1 st = k1 x st'" "Q m k2 st = k2 x st'" by (simp_all add: Q_Inr)
    with assms Pair Inr show ?thesis by simp
  qed
qed

lemma same_outcome_Q_tail:
  assumes "same_outcome (m1 st) (m2 st)"
  shows "same_outcome (Q m1 k st) (Q m2 k st)"
proof (cases "m1 st")
  case p1: (Pair r1 s1)
  with assms obtain r2 where p2: "m2 st = (r2, s1)" and r: "same_result r1 r2"
    by (cases "m2 st") (auto simp: same_outcome_def)
  show ?thesis
  proof (cases r1)
    case l1: (Inl c1)
    with r obtain c2 where l2: "r2 = Inl c2" and c: "same_completion c1 c2"
      by (cases r2) auto
    from p1 l1 have "Q m1 k st = (Inl c1, s1)" by (simp add: Q_Inl)
    moreover from p2 l2 have "Q m2 k st = (Inl c2, s1)" by (simp add: Q_Inl)
    ultimately show ?thesis using c by (simp add: same_outcome_def)
  next
    case r1: (Inr x)
    with r have "r2 = Inr x" by (cases r2) auto
    with p1 p2 r1 have "Q m1 k st = k x s1" "Q m2 k st = k x s1" by (simp_all add: Q_Inr)
    then show ?thesis by (simp add: same_outcome_refl)
  qed
qed

lemma ToDateTimeOptions_any_date:
  "ToDateTimeOptions E options (new_Value (HString ''any'')) (new_Value (HString ''date''))
   = Q (if options = Undefined then ret None else Q (ToObject E options) (\<lambda>r. ret (Some r)))
       (\<lambda>proto st.
          ret (FreshObject
                 (if (\<forall>P \<in> set [''weekday'', ''year'', ''month'', ''day'', ''dayPeriod'', ''hour'',
                                 ''minute'', ''second'', ''fractionalSecondDigits'', ''dateStyle'',
                                 ''timeStyle'']. Get E st (FreshObject [] proto) P = Undefined)
                  then [(''year'', String ''numeric''), (''month'', String ''numeric''),
                        (''day'', String ''numeric'')]
                  else []) proto) st)"
  unfolding ToDateTimeOptions_def
  by (rule arg_cong [where f = "Q _"], intro ext)
     (auto simp: Let_def new_Value_def bridgeableForHost_def OrdinaryObjectCreate_def)

text \<open>
  The heart of the comparison, from the state in which the options object is there. The
  one constructor reads the options object and applies the defaults to the host
  options; the other reads an object that inherits from the options object and has the
  defaults as its own properties when none of the date and time components and neither
  style is there.
\<close>

lemma defaults_before_or_after:
  fixes E :: "('st, 'i) env"
  assumes q: "quiet_options E O1 st"
    and R1: "(\<forall>P \<in> set [''weekday'', ''year'', ''month'', ''day'', ''dayPeriod'', ''hour'',
                         ''minute'', ''second'', ''fractionalSecondDigits'', ''dateStyle'',
                         ''timeStyle'']. Get E st O1 P = Undefined)
             \<Longrightarrow> (\<And>s P. Get E s O2 P
                    = (if P \<in> set [''year'', ''month'', ''day''] then String ''numeric'' else Get E s O1 P))"
    and R2: "\<not> (\<forall>P \<in> set [''weekday'', ''year'', ''month'', ''day'', ''dayPeriod'', ''hour'',
                         ''minute'', ''second'', ''fractionalSecondDigits'', ''dateStyle'',
                         ''timeStyle'']. Get E st O1 P = Undefined)
             \<Longrightarrow> (\<And>s P. Get E s O2 P = Get E s O1 P)"
  shows "same_outcome
           (Q (InitializeDateTimeFormat E O1)
              (\<lambda>read. Q (apply_defaults ''any'' ''date'' read)
                         (\<lambda>hostOptions. ret (dtf, hl, hostOptions))) st)
           (Q (InitializeDateTimeFormat E O2)
              (\<lambda>read. case read of (hostOptions, hasExplicitFormatComponents) \<Rightarrow>
                 let broadStyle = (get_option hostOptions ''dateStyle'' \<noteq> HUndefined
                                   \<or> get_option hostOptions ''timeStyle'' \<noteq> HUndefined)
                 in if broadStyle \<and> hasExplicitFormatComponents
                    then abrupt (surroundingAgent_Throw ''TypeError'' ''IncompatibleOptions''
                           [H (dq ''dateStyle'' @ '' and '' @ dq ''timeStyle'' @ '' prohibit field-specific formatting'')])
                    else ret (dtf, hl, hostOptions)) st)"
    (is "same_outcome (Q _ ?K1 st) (Q _ ?K2 st)")
proof (cases "\<forall>P \<in> set [''weekday'', ''year'', ''month'', ''day'', ''dayPeriod'', ''hour'',
                         ''minute'', ''second'', ''fractionalSecondDigits'', ''dateStyle'',
                         ''timeStyle'']. Get E st O1 P = Undefined")
  case True
  note R = R1 [OF True]
  from True have U: "\<forall>P \<in> set [''year'', ''month'', ''day'']. Get E st O1 P = Undefined" by simp
  note fg = InitializeDateTimeFormat_defaults [OF q R U converted.start]
  obtain r st' where run1: "InitializeDateTimeFormat E O1 st = (r, st')"
    by (cases "InitializeDateTimeFormat E O1 st")
  show ?thesis
  proof (cases r)
    case (Inl c)
    with fg run1 have "InitializeDateTimeFormat E O2 st = (Inl c, st')"
      by (simp add: follows_guest_def)
    with run1 Inl show ?thesis by (simp add: Q_Inl same_outcome_def)
  next
    case (Inr read)
    obtain ho he where read: "read = (ho, he)" by (cases read)
    from fg run1 Inr read obtain he2 where
      run2: "InitializeDateTimeFormat E O2 st = (Inr (numeric_date ho, he2), st')"
      by (auto simp: follows_guest_def)
    from run1 Inr read have run1': "InitializeDateTimeFormat E O1 st = (Inr (ho, he), st')" by simp
    note reads = InitializeDateTimeFormat_reads [OF q converted.start run1']
    have u: "\<forall>P \<in> set [''weekday'', ''year'', ''month'', ''day'', ''dayPeriod'', ''hour'',
                         ''minute'', ''second'', ''fractionalSecondDigits'', ''dateStyle'',
                         ''timeStyle'']. get_option ho P = HUndefined"
      using reads(1) True by (simp add: DTF_COMPONENTS_def)
    have fold: "fold (\<lambda>prop. set_option prop (HString ''numeric'')) [''year'', ''month'', ''day''] ho
                  = numeric_date ho"
      by (rule fold_numeric_date) (simp_all add: reads(2) DTF_COMPONENTS_def)
    have "apply_defaults ''any'' ''date'' (ho, he) st' = (Inr (numeric_date ho), st')"
      using u fold by (simp add: apply_defaults_def ret_def)
    then have 1: "?K1 (ho, he) st' = (Inr (dtf, hl, numeric_date ho), st')"
      by (simp add: Q_Inr [where m = "apply_defaults ''any'' ''date'' (ho, he)"] ret_def)
    have 2: "?K2 (numeric_date ho, he2) st' = (Inr (dtf, hl, numeric_date ho), st')"
      using u by (simp add: get_option_numeric_date ret_def)
    from 1 2 show ?thesis
      by (simp add: Q_Inr [where m = "InitializeDateTimeFormat E O1", OF run1']
          Q_Inr [where m = "InitializeDateTimeFormat E O2", OF run2] same_outcome_def)
  qed
next
  case False
  have same: "InitializeDateTimeFormat E O2 = InitializeDateTimeFormat E O1"
    by (rule InitializeDateTimeFormat_cong) (rule R2 [OF False])
  show ?thesis
    unfolding same
  proof (rule same_outcome_Q)
    fix read st'
    assume run: "InitializeDateTimeFormat E O1 st = (Inr read, st')"
    obtain ho he where read: "read = (ho, he)" by (cases read)
    note reads = InitializeDateTimeFormat_reads [OF q converted.start run [unfolded read]]
    from False reads(1)
    have d: "\<not> (\<forall>P \<in> set [''weekday'', ''year'', ''month'', ''day'', ''dayPeriod'', ''hour'',
                         ''minute'', ''second'', ''fractionalSecondDigits'', ''dateStyle'',
                         ''timeStyle'']. get_option ho P = HUndefined)"
      by (simp add: DTF_COMPONENTS_def)
    show "same_outcome (?K1 read st') (?K2 read st')"
    proof (cases "get_option ho ''dateStyle'' \<noteq> HUndefined \<or> get_option ho ''timeStyle'' \<noteq> HUndefined")
      case broad: True
      show ?thesis
      proof (cases he)
        case True
        with broad read show ?thesis
          by (simp add: apply_defaults_def same_outcome_def abrupt_def surroundingAgent_Throw_def)
      next
        case False
        with broad read show ?thesis
          by (simp add: apply_defaults_def same_outcome_def ret_def)
      qed
    next
      case False
      with d have "list_ex (\<lambda>prop. get_option ho prop \<noteq> HUndefined) [''weekday'', ''year'', ''month'', ''day'']
                 \<or> list_ex (\<lambda>prop. get_option ho prop \<noteq> HUndefined)
                      [''dayPeriod'', ''hour'', ''minute'', ''second'', ''fractionalSecondDigits'']"
        by auto
      then have ad: "apply_defaults ''any'' ''date'' (ho, he) = ret ho"
        using False by (auto simp: apply_defaults_def)
      from False show ?thesis
        unfolding read by (simp add: ad same_outcome_def ret_def)
    qed
  qed
qed

lemma Q_ret_state: "Q (\<lambda>st. ret (g st) st) k st = k (g st) st"
  by (simp add: Q_def ret_def)

lemma Get_FreshObject:
  "Get E st (FreshObject props proto) P =
     (case map_of props P of
        Some v \<Rightarrow> v
      | None \<Rightarrow> Get E st (FreshObject [] proto) P)"
  by (simp add: Get_def split: option.splits)

lemma Get_inherit: "Get E st (FreshObject [] (Some r)) P = Get E st (GuestObject r) P"
  by (simp add: Get_def)

lemma prepare_same_outcome:
  fixes E :: "('st, 'i) env"
  assumes q: "\<And>dtf rl O' s0. options_at_start E locales options NewTarget st = (Inr (dtf, rl, O'), s0)
                \<Longrightarrow> quiet_options E O' s0"
  shows "same_outcome
           (CreateDateTimeFormat_prepare E
              (if NewTarget = Undefined then activeFunctionObject E else NewTarget)
              locales options ''any'' ''date'' st)
           (DTFConstructor_002_prepare E locales options NewTarget st)"
  unfolding CreateDateTimeFormat_prepare_def DTFConstructor_002_prepare_def
    ToDateTimeOptions_any_date Q_assoc
proof (rule same_outcome_Q, rule same_outcome_Q)
  fix dtf :: nat and rl :: "val list" and s1 s :: 'st
  assume a1: "OrdinaryCreateFromConstructor E
                (if NewTarget = Undefined then activeFunctionObject E else NewTarget) st = (Inr dtf, s1)"
    and a2: "limitedCanonicalizeLocaleList E locales s1 = (Inr rl, s)"
  have start: "options_at_start E locales options NewTarget st = (Inr (dtf, rl, O'), t)"
    if "CoerceOptionsToObject E options s = (Inr O', t)" for O' t
    unfolding options_at_start_def
    by (simp add: Q_Inr [where m = "OrdinaryCreateFromConstructor E _", OF a1]
        Q_Inr [where m = "limitedCanonicalizeLocaleList E locales", OF a2]
        Q_Inr [where m = "CoerceOptionsToObject E options", OF that] ret_def)
  let ?N = "[''weekday'', ''year'', ''month'', ''day'', ''dayPeriod'', ''hour'',
             ''minute'', ''second'', ''fractionalSecondDigits'', ''dateStyle'', ''timeStyle'']"
  let ?D = "[(''year'', String ''numeric''), (''month'', String ''numeric''),
             (''day'', String ''numeric'')]"
  let ?K1 = "\<lambda>O'. Q (InitializeDateTimeFormat E O')
              (\<lambda>read. Q (apply_defaults ''any'' ''date'' read)
                         (\<lambda>hostOptions. ret (dtf, map bridgeableForHost rl, hostOptions)))"
  let ?K2 = "\<lambda>O'. Q (InitializeDateTimeFormat E O')
              (\<lambda>read. case read of (hostOptions, hasExplicitFormatComponents) \<Rightarrow>
                 let broadStyle = (get_option hostOptions ''dateStyle'' \<noteq> HUndefined
                                   \<or> get_option hostOptions ''timeStyle'' \<noteq> HUndefined)
                 in if broadStyle \<and> hasExplicitFormatComponents
                    then abrupt (surroundingAgent_Throw ''TypeError'' ''IncompatibleOptions''
                           [H (dq ''dateStyle'' @ '' and '' @ dq ''timeStyle'' @ '' prohibit field-specific formatting'')])
                    else ret (dtf, map bridgeableForHost rl, hostOptions))"
  let ?W = "\<lambda>proto st. FreshObject
              (if (\<forall>P \<in> set ?N. Get E st (FreshObject [] proto) P = Undefined) then ?D else []) proto"
  have core: "same_outcome (?K1 O1 t) (?K2 (?W proto t) t)"
    if "\<And>s P. Get E s (FreshObject [] proto) P = Get E s O1 P" "quiet_options E O1 t" for O1 proto t
  proof (rule defaults_before_or_after [OF that(2)])
    fix s P
    assume "\<forall>P \<in> set ?N. Get E t O1 P = Undefined"
    then have n: "\<forall>P \<in> set ?N. Get E t (FreshObject [] proto) P = Undefined"
      by (simp add: that(1))
    have W: "?W proto t = FreshObject ?D proto"
      by (rule arg_cong [where f = "\<lambda>x. FreshObject x proto"], rule if_P, rule n)
    show "Get E s (?W proto t) P
                 = (if P \<in> set [''year'', ''month'', ''day''] then String ''numeric'' else Get E s O1 P)"
      unfolding W by (subst Get_FreshObject) (simp add: that(1))
  next
    fix s P
    assume "\<not> (\<forall>P \<in> set ?N. Get E t O1 P = Undefined)"
    then have n: "\<not> (\<forall>P \<in> set ?N. Get E t (FreshObject [] proto) P = Undefined)"
      by (simp add: that(1))
    have W: "?W proto t = FreshObject [] proto"
      by (rule arg_cong [where f = "\<lambda>x. FreshObject x proto"], rule if_not_P, rule n)
    show "Get E s (?W proto t) P = Get E s O1 P"
      unfolding W by (rule that(1))
  qed
  show "same_outcome
          (Q (CoerceOptionsToObject E options) ?K1 s)
          (Q (if options = Undefined then ret None else Q (ToObject E options) (\<lambda>r. ret (Some r)))
             (\<lambda>proto. Q (\<lambda>st. ret (?W proto st) st) ?K2) s)"
  proof (cases "options = Undefined")
    case True
    then have "CoerceOptionsToObject E options s = (Inr (FreshObject [] None), s)"
      by (simp add: CoerceOptionsToObject_def OrdinaryObjectCreate_def ret_def)
    then have "quiet_options E (FreshObject [] None) s"
      by (rule q [OF start])
    then have "same_outcome (?K1 (FreshObject [] None) s) (?K2 (?W None s) s)"
      by (intro core) simp_all
    with True show ?thesis
      by (simp add: CoerceOptionsToObject_def OrdinaryObjectCreate_def Q_ret_state)
  next
    case False
    have "same_outcome
            (Q (ToObject E options) (\<lambda>r. ?K1 (GuestObject r)) s)
            (Q (ToObject E options) (\<lambda>r. Q (\<lambda>st. ret (?W (Some r) st) st) ?K2) s)"
    proof (rule same_outcome_Q)
      fix r t
      assume "ToObject E options s = (Inr r, t)"
      with False have "CoerceOptionsToObject E options s = (Inr (GuestObject r), t)"
        by (simp add: CoerceOptionsToObject_def Q_Inr [where m = "ToObject E options"] ret_def)
      then have "quiet_options E (GuestObject r) t"
        by (rule q [OF start])
      then have "same_outcome (?K1 (GuestObject r) t) (?K2 (?W (Some r) t) t)"
        by (intro core Get_inherit)
      then show "same_outcome (?K1 (GuestObject r) t) (Q (\<lambda>st. ret (?W (Some r) st) st) ?K2 t)"
        by (simp only: Q_ret_state)
    qed
    with False show ?thesis
      by (simp add: CoerceOptionsToObject_def Q_assoc)
  qed
qed

text \<open>
  C9, as the code has it. Take any locales argument, options argument, new target and
  guest state, and the options object and the state with which the reading of the
  options starts. Suppose that however the values that the options object has there for
  the consulted properties are converted (\<open>ToNumber\<close> for \<open>fractionalSecondDigits\<close>,
  \<open>ToString\<close> for the others but \<open>hour12\<close>), the options object keeps those values for the
  consulted properties, and that \<open>ToString\<close> of the string \<open>"numeric"\<close> is that string and
  changes nothing. Then the constructor that applies the defaults after reading and the
  constructor that applies them before reading, through the object \<open>ToDateTimeOptions\<close>
  makes, have the same outcome, up to the construction of the host instance and as a
  whole: they leave the same guest state and either succeed with the same new object,
  host locales and host options (so with the same host instance), or end with the same
  abrupt completion, where for the \<open>TypeError\<close> of a style given together with a component
  the two differ in the text of the message only. Nothing is asked of the conversion of
  any other value.
\<close>

theorem DTFConstructor_defaults_equivalent:
  fixes E :: "('st, 'i) env"
  assumes "\<And>dtf rl O' s0. options_at_start E locales options NewTarget st = (Inr (dtf, rl, O'), s0)
             \<Longrightarrow> quiet_options E O' s0"
  shows "same_outcome
           (CreateDateTimeFormat_prepare E
              (if NewTarget = Undefined then activeFunctionObject E else NewTarget)
              locales options ''any'' ''date'' st)
           (DTFConstructor_002_prepare E locales options NewTarget st)
         \<and> same_outcome (DTFConstructor_001 E locales options NewTarget st)
             (DTFConstructor_002 E locales options NewTarget st)"
proof
  show prepare: "same_outcome
           (CreateDateTimeFormat_prepare E
              (if NewTarget = Undefined then activeFunctionObject E else NewTarget)
              locales options ''any'' ''date'' st)
           (DTFConstructor_002_prepare E locales options NewTarget st)"
    by (rule prepare_same_outcome) (rule assms)
  show "same_outcome (DTFConstructor_001 E locales options NewTarget st)
          (DTFConstructor_002 E locales options NewTarget st)"
    unfolding DTFConstructor_001_def CreateDateTimeFormat_def DTFConstructor_002_def
    by (rule same_outcome_Q_tail) (rule prepare)
qed

lemma converted_demo:
  assumes "converted E_demo (GuestObject 0) [(''calendar'', String ''gregory'')] s"
  shows "s = [(''calendar'', String ''gregory'')]"
  using assms
proof (induction rule: converted.induct)
  case start
  show ?case by simp
next
  case (conversion s P)
  have "Get E_demo [(''calendar'', String ''gregory'')] (GuestObject 0) P
          = (if P = ''calendar'' then String ''gregory'' else Undefined)"
    by (simp add: Get_def E_demo_def)
  with conversion.IH show ?case
    by (simp add: conversion_of_def E_demo_def)
qed

lemma quiet_demo: "quiet_options E_demo (GuestObject 0) [(''calendar'', String ''gregory'')]"
  by (auto simp: quiet_options_def dest!: converted_demo) (simp add: E_demo_def)

theorem DTFConstructor_defaults_equivalent_witness:
  "options_at_start E_demo Undefined (Object 0) Undefined [(''calendar'', String ''gregory'')]
     = (Inr (9, [], GuestObject 0), [(''calendar'', String ''gregory'')])
   \<and> quiet_options E_demo (GuestObject 0) [(''calendar'', String ''gregory'')]
   \<and> same_outcome
       (DTFConstructor_001 E_demo Undefined (Object 0) Undefined [(''calendar'', String ''gregory'')])
       (DTFConstructor_002 E_demo Undefined (Object 0) Undefined [(''calendar'', String ''gregory'')])
   \<and> DTFConstructor_002 E_demo Undefined (Object 0) Undefined [(''calendar'', String ''gregory'')]
       = (Inr (9, Some [], ho_read (HString ''gregory'') HUndefined (HString ''numeric'')),
          [(''calendar'', String ''gregory'')])"
proof -
  let ?s = "[(''calendar'', String ''gregory'')]"
  have start: "options_at_start E_demo Undefined (Object 0) Undefined ?s
     = (Inr (9, [], GuestObject 0), ?s)"
    by code_simp
  have q: "quiet_options E_demo O' s0"
    if "options_at_start E_demo Undefined (Object 0) Undefined ?s = (Inr (dtf, rl, O'), s0)"
    for dtf rl O' s0
    using that quiet_demo unfolding start by simp
  have "same_outcome
       (DTFConstructor_001 E_demo Undefined (Object 0) Undefined ?s)
       (DTFConstructor_002 E_demo Undefined (Object 0) Undefined ?s)"
    using DTFConstructor_defaults_equivalent [of E_demo Undefined "Object 0" Undefined ?s, OF q]
    by (rule conjunct2)
  moreover have "DTFConstructor_002 E_demo Undefined (Object 0) Undefined ?s
       = (Inr (9, Some [], ho_read (HString ''gregory'') HUndefined (HString ''numeric'')), ?s)"
    by code_simp
  ultimately show ?thesis using start quiet_demo by (intro conjI)
qed

text \<open>
  C9 as the specification has it fails for an options object with data properties only,
  whose \<open>calendar\<close> is an object with a \<open>toString\<close> that sets \<open>weekday\<close> on the options
  object: the constructor that applies the defaults after reading finds the weekday and
  leaves year, month and day \<open>undefined\<close>; the one that applies them before reading has
  already set the three to \<open>"numeric"\<close>.
\<close>

theorem DTFConstructor_toString_counterexample:
  "DTFConstructor_001 E_demo Undefined (Object 0) Undefined [(''calendar'', Object 5)]
     = (Inr (9, Some [], ho_read (HString ''gregory'') (HString ''long'') HUndefined),
        [(''calendar'', Object 5), (''weekday'', String ''long'')])
   \<and> DTFConstructor_002 E_demo Undefined (Object 0) Undefined [(''calendar'', Object 5)]
     = (Inr (9, Some [], ho_read (HString ''gregory'') (HString ''long'') (HString ''numeric'')),
        [(''calendar'', Object 5), (''weekday'', String ''long'')])
   \<and> get_option (ho_read (HString ''gregory'') (HString ''long'') HUndefined) ''year''
     \<noteq> get_option (ho_read (HString ''gregory'') (HString ''long'') (HString ''numeric'')) ''year''"
proof (intro conjI)
  show "DTFConstructor_001 E_demo Undefined (Object 0) Undefined [(''calendar'', Object 5)]
     = (Inr (9, Some [], ho_read (HString ''gregory'') (HString ''long'') HUndefined),
        [(''calendar'', Object 5), (''weekday'', String ''long'')])"
    by code_simp
  show "DTFConstructor_002 E_demo Undefined (Object 0) Undefined [(''calendar'', Object 5)]
     = (Inr (9, Some [], ho_read (HString ''gregory'') (HString ''long'') (HString ''numeric'')),
        [(''calendar'', Object 5), (''weekday'', String ''long'')])"
    by code_simp
  show "get_option (ho_read (HString ''gregory'') (HString ''long'') HUndefined) ''year''
     \<noteq> get_option (ho_read (HString ''gregory'') (HString ''long'') (HString ''numeric'')) ''year''"
    by code_simp
qed

end
